theory Spec2Isabelle
  imports Main "HOL-Library.Sublist"
begin

section \<open>Paths: Node's posix \<open>path\<close> module as the server uses it\<close>

text \<open>
  The server calls \<open>path.resolve\<close>, \<open>path.join\<close> and \<open>String.prototype.startsWith\<close>.
  They are library functions; the definitions below follow Node's posix implementation:
  \<open>normalizeString\<close> walks the text between the slashes, drops empty and \<open>.\<close> pieces,
  lets \<open>..\<close> remove the piece before it (or keeps it when the path is relative and
  nothing is left to remove), and glues the rest with single slashes.
\<close>

fun split_path :: "string \<Rightarrow> string list" where
  "split_path [] = [[]]"
| "split_path (c # cs) =
     (if c = CHR ''/'' then [] # split_path cs
      else (case split_path cs of
              [] \<Rightarrow> [[c]]
            | s # ss \<Rightarrow> (c # s) # ss))"

fun join_slash :: "string list \<Rightarrow> string" where
  "join_slash [] = []"
| "join_slash [s] = s"
| "join_slash (s # t # ss) = s @ CHR ''/'' # join_slash (t # ss)"

definition norm_step :: "bool \<Rightarrow> string list \<Rightarrow> string \<Rightarrow> string list" where
  "norm_step allowAboveRoot res seg =
     (if seg = [] \<or> seg = ''.'' then res
      else if seg = ''..'' then
        (if res \<noteq> [] \<and> last res \<noteq> ''..'' then butlast res
         else if allowAboveRoot then res @ [''..'']
         else res)
      else res @ [seg])"

definition norm_segs :: "bool \<Rightarrow> string \<Rightarrow> string list" where
  "norm_segs allowAboveRoot p = foldl (norm_step allowAboveRoot) [] (split_path p)"

definition normalizeString :: "string \<Rightarrow> bool \<Rightarrow> string" where
  "normalizeString p allowAboveRoot = join_slash (norm_segs allowAboveRoot p)"

definition normalize :: "string \<Rightarrow> string" where
  "normalize p =
     (if p = [] then ''.''
      else
        let isAbsolute = (hd p = CHR ''/'');
            trailingSeparator = (last p = CHR ''/'');
            q = normalizeString p (\<not> isAbsolute)
        in if q = [] then (if isAbsolute then ''/'' else if trailingSeparator then ''./'' else ''.'')
           else (if isAbsolute then ''/'' else []) @ q @ (if trailingSeparator then ''/'' else []))"

definition path_join :: "string list \<Rightarrow> string" where
  "path_join args =
     (let joined = join_slash (filter (\<lambda>a. a \<noteq> []) args)
      in if joined = [] then ''.'' else normalize joined)"

text \<open>\<open>path.resolve(p)\<close> with one argument, in a process whose working directory is \<open>cwd\<close>
  (an absolute path).\<close>

definition path_resolve :: "string \<Rightarrow> string \<Rightarrow> string" where
  "path_resolve cwd p =
     (let resolvedPath = (if p \<noteq> [] \<and> hd p = CHR ''/'' then p @ ''/'' else cwd @ ''/'' @ p @ ''/'')
      in CHR ''/'' # normalizeString resolvedPath False)"

definition startsWith :: "string \<Rightarrow> string \<Rightarrow> bool" where
  "startsWith s t = prefix t s"

text \<open>\<open>const DATA_DIR = path.resolve('./data/bots')\<close>\<close>

definition DATA_DIR :: "string \<Rightarrow> string" where
  "DATA_DIR cwd = path_resolve cwd ''./data/bots''"

text \<open>The pieces of a path between its slashes, and lexical nesting of one path under
  another: every piece of the root, in order, begins the path.\<close>

definition segments :: "string \<Rightarrow> string list" where
  "segments p = filter (\<lambda>s. s \<noteq> []) (split_path p)"

definition nested_under :: "string \<Rightarrow> string \<Rightarrow> bool" where
  "nested_under p root = prefix (segments root) (segments p)"

text \<open>\<open>below_named dir name p\<close>: the path \<open>p\<close> lies in or below an entry of the directory
  \<open>dir\<close> whose name begins with the text \<open>name\<close>.\<close>

definition below_named :: "string \<Rightarrow> string \<Rightarrow> string \<Rightarrow> bool" where
  "below_named dir name p =
     (let ds = segments dir; ps = segments p
      in prefix ds ps \<and> length ds < length ps \<and> prefix name (ps ! length ds))"

section \<open>The filesystem as the handlers see it\<close>

text \<open>
  \<open>fs-extra\<close> is a library; the server uses \<open>pathExists\<close>, \<open>readFile\<close>, \<open>outputFile\<close> and
  \<open>remove\<close>. The operating system follows symbolic links when it opens a path:
  \<open>realpath\<close> is that resolution (the identity on a filesystem without links), and
  \<open>nodes\<close> says what is stored at a canonical path. The parent directories that
  \<open>outputFile\<close> creates when they are missing are not recorded.
\<close>

datatype node = File string | Dir

datatype error = Error string | Rejected string

record filesys =
  realpath :: "string \<Rightarrow> string"
  nodes :: "string \<Rightarrow> node option"

definition pathExists :: "filesys \<Rightarrow> string \<Rightarrow> bool" where
  "pathExists fs p = (nodes fs (realpath fs p) \<noteq> None)"

definition readFile :: "filesys \<Rightarrow> string \<Rightarrow> error + string" where
  "readFile fs p =
     (case nodes fs (realpath fs p) of
        None \<Rightarrow> Inl (Rejected ''ENOENT'')
      | Some Dir \<Rightarrow> Inl (Rejected ''EISDIR'')
      | Some (File text) \<Rightarrow> Inr text)"

definition outputFile :: "filesys \<Rightarrow> string \<Rightarrow> string \<Rightarrow> error + filesys" where
  "outputFile fs p text =
     (let q = realpath fs p
      in if nodes fs q = Some Dir then Inl (Rejected ''EISDIR'')
         else Inr (fs\<lparr>nodes := (nodes fs)(q \<mapsto> File text)\<rparr>))"

definition remove :: "filesys \<Rightarrow> string \<Rightarrow> filesys" where
  "remove fs p =
     (let q = realpath fs p
      in fs\<lparr>nodes := (\<lambda>x. if prefix (segments q) (segments x) then None else nodes fs x)\<rparr>)"

section \<open>File read and write endpoints\<close>

datatype response =
    Status int string
  | FileContent string string
  | OkTrue
  | NoResponse error

text \<open>\<open>GET /api/bots/:id/file\<close>. \<open>rel\<close> is \<open>req.query.path\<close>: absent, or a string.
  \<open>mime_lookup\<close> is the table of the \<open>mime-types\<close> library.\<close>

definition get_file ::
  "string \<Rightarrow> (string \<Rightarrow> string option) \<Rightarrow> filesys \<Rightarrow> string \<Rightarrow> string option \<Rightarrow> response" where
  "get_file cwd mime_lookup fs ident rel_opt =
     (case rel_opt of
        None \<Rightarrow> Status 400 ''Missing file path''
      | Some rel \<Rightarrow>
          if rel = [] then Status 400 ''Missing file path''
          else
            let filePath = path_join [DATA_DIR cwd, ident, rel]
            in if \<not> startsWith filePath (path_join [DATA_DIR cwd, ident])
               then Status 400 ''Invalid path''
               else if \<not> pathExists fs filePath then Status 404 ''File not found''
               else (case readFile fs filePath of
                       Inl e \<Rightarrow> NoResponse e
                     | Inr text \<Rightarrow>
                         FileContent text
                           (case mime_lookup filePath of None \<Rightarrow> ''text/plain'' | Some m \<Rightarrow> m)))"

text \<open>\<open>PUT /api/bots/:id/file\<close>. \<open>rel\<close> and \<open>text\<close> are \<open>req.body.path\<close> and
  \<open>req.body.content\<close>.\<close>

definition put_file ::
  "string \<Rightarrow> filesys \<Rightarrow> string \<Rightarrow> string option \<Rightarrow> string \<Rightarrow> response \<times> filesys" where
  "put_file cwd fs ident rel_opt text =
     (case rel_opt of
        None \<Rightarrow> (Status 400 ''Missing file path'', fs)
      | Some rel \<Rightarrow>
          if rel = [] then (Status 400 ''Missing file path'', fs)
          else
            let filePath = path_join [DATA_DIR cwd, ident, rel]
            in if \<not> startsWith filePath (path_join [DATA_DIR cwd, ident])
               then (Status 400 ''Invalid path'', fs)
               else (case outputFile fs filePath text of
                       Inl e \<Rightarrow> (NoResponse e, fs)
                     | Inr fs' \<Rightarrow> (OkTrue, fs')))"


section \<open>The registry, the sandboxes and the log subscribers\<close>

text \<open>
  \<open>const bots = new Map()\<close> maps a bot id to an object \<open>{ container, logs, listeners }\<close>.
  The object is shared: the registry holds it, and so do the closures of the log stream,
  of the exit observer and of every WebSocket connection, which keep using it after
  \<open>bots.delete(id)\<close>. The model therefore keeps the objects in a heap (a list, an object's
  address being its index) and lets the registry and the closures hold addresses.
\<close>

record container =
  cid :: string
  cname :: string
  Image :: string
  Cmd :: "string list"
  Tty :: bool
  Binds :: "string list"
  AutoRemove :: bool
  NetworkMode :: string
  Memory :: int
  PidsLimit :: int
  WorkingDir :: string

record entry =
  container :: "container option"
  logs :: "string list"
  listeners :: "nat list"

datatype ws_msg = ErrorMsg string | History "string list" | Log string

text \<open>
  \<^item> \<open>docker\<close>: the containers this server has created on the Docker daemon; the server never
    removes one (\<open>AutoRemove: false\<close>, and no call to \<open>container.remove\<close>).
  \<^item> \<open>streams\<close>: the entries whose log stream has a \<open>data\<close> handler attached.
  \<^item> \<open>waits\<close>: the pending \<open>container.wait()\<close> observers, each with the entry and the id
    its closure holds.
  \<^item> \<open>conns\<close>: the WebSocket connections in order of arrival, each with the entry its
    closure captured (\<open>None\<close> when \<open>bots.get(botId)\<close> was undefined); a connection is
    named by its index.
  \<^item> \<open>sent\<close>: every \<open>ws.send\<close> call, in order. A throwing \<open>send\<close> is swallowed by the
    \<open>try/catch\<close> around it, so the server goes on in the same way whether the socket
    took the message or not.
  \<^item> \<open>console\<close>: what \<open>console.warn\<close> and \<open>console.log\<close> received from the error handlers.
\<close>

record world =
  fs :: filesys
  bots :: "string \<Rightarrow> nat option"
  heap :: "entry list"
  docker :: "container list"
  streams :: "nat list"
  waits :: "(nat \<times> string) list"
  conns :: "nat option list"
  sent :: "(nat \<times> ws_msg) list"
  console :: "(string \<times> error) list"

definition init :: "filesys \<Rightarrow> world" where
  "init f = \<lparr>fs = f, bots = (\<lambda>_. None), heap = [], docker = [], streams = [], waits = [],
              conns = [], sent = [], console = []\<rparr>"

text \<open>\<open>bots.get(id)\<close>: the address and the object, or nothing.\<close>

definition bots_get :: "world \<Rightarrow> string \<Rightarrow> (nat \<times> entry) option" where
  "bots_get w ident =
     (case bots w ident of
        None \<Rightarrow> None
      | Some r \<Rightarrow> if r < length (heap w) then Some (r, heap w ! r) else None)"

text \<open>The process environment, and what the libraries and the Docker daemon answer during
  one call of \<open>startBot\<close>: \<open>parse_main\<close> is \<open>JSON.parse\<close> of the manifest text followed by
  the read of its \<open>main\<close> field (\<open>Inl\<close> when that throws, \<open>Inr None\<close> when the field is absent
  or falsy, \<open>Inr (Some m)\<close> when it is the non-empty string \<open>m\<close>); \<open>create_result\<close> is the
  rejection of \<open>docker.createContainer\<close> or the id of the container it made;
  \<open>start_result\<close> and \<open>logs_result\<close> are the rejections, if any, of \<open>container.start\<close> and
  \<open>container.logs\<close>.\<close>

record proc =
  cwd :: string
  SANDBOX_IMAGE :: "string option"

record replies =
  parse_main :: "string \<Rightarrow> error + string option"
  create_result :: "error + string"
  start_result :: "error option"
  logs_result :: "error option"

datatype started = Started string | AlreadyRunning string

fun replace_first :: "string \<Rightarrow> string \<Rightarrow> string \<Rightarrow> string" where
  "replace_first pat rep [] = (if pat = [] then rep else [])"
| "replace_first pat rep (c # cs) =
     (if prefix pat (c # cs) then rep @ drop (length pat) (c # cs)
      else c # replace_first pat rep cs)"

definition candidates :: "string list" where
  "candidates = [''index.js'', ''app.js'', ''server.js'']"

fun first_candidate :: "filesys \<Rightarrow> string \<Rightarrow> string list \<Rightarrow> string option" where
  "first_candidate f dir [] = None"
| "first_candidate f dir (c # cs) =
     (if pathExists f (path_join [dir, c]) then Some (''/bot/'' @ c)
      else first_candidate f dir cs)"

text \<open>Lines 189 to 201 of \<open>startBot\<close>: the entry point, nothing, or the error thrown on
  the way.\<close>

definition discover :: "replies \<Rightarrow> filesys \<Rightarrow> string \<Rightarrow> error + string option" where
  "discover rp f dir =
     (case first_candidate f dir candidates of
        Some entryPoint \<Rightarrow> Inr (Some entryPoint)
      | None \<Rightarrow>
          let pkgPath = path_join [dir, ''package.json'']
          in if pathExists f pkgPath then
               (case readFile f pkgPath of
                  Inl e \<Rightarrow> Inl e
                | Inr text \<Rightarrow>
                    (case parse_main rp text of
                       Inl e \<Rightarrow> Inl e
                     | Inr None \<Rightarrow> Inr None
                     | Inr (Some m) \<Rightarrow> if m = [] then Inr None else Inr (Some (''/bot/'' @ m))))
             else Inr None)"

definition no_entry_point :: error where
  "no_entry_point = Error ''No entry point found (index.js/app.js/server.js or package.json main)''"

definition new_container :: "proc \<Rightarrow> string \<Rightarrow> string \<Rightarrow> string \<Rightarrow> string \<Rightarrow> container" where
  "new_container pe ident dir entryPoint new_id =
     \<lparr>cid = new_id,
      cname = ''bot_'' @ ident,
      Image = (case SANDBOX_IMAGE pe of
                 None \<Rightarrow> ''node:20-slim''
               | Some i \<Rightarrow> if i = [] then ''node:20-slim'' else i),
      Cmd = [''node'', replace_first ''/bot/'' [] entryPoint],
      Tty = False,
      Binds = [dir @ '':/bot:rw''],
      AutoRemove = False,
      NetworkMode = ''none'',
      Memory = 256 * 1024 * 1024,
      PidsLimit = 100,
      WorkingDir = ''/bot''\<rparr>"

text \<open>Lines 211 to 250: create, start, register, attach the log stream and the exit
  observer.\<close>

definition create_and_run ::
  "proc \<Rightarrow> replies \<Rightarrow> string \<Rightarrow> string \<Rightarrow> string \<Rightarrow> world \<Rightarrow> (error + started) \<times> world" where
  "create_and_run pe rp ident dir entryPoint w =
     (case create_result rp of
        Inl e \<Rightarrow> (Inl e, w)
      | Inr new_id \<Rightarrow>
          let c = new_container pe ident dir entryPoint new_id;
              w1 = w\<lparr>docker := docker w @ [c]\<rparr>
          in (case start_result rp of
                Some e \<Rightarrow> (Inl e, w1)
              | None \<Rightarrow>
                  let r = length (heap w1);
                      w2 = w1\<lparr>heap := heap w1 @ [\<lparr>container = Some c, logs = [], listeners = []\<rparr>],
                              bots := (bots w1)(ident \<mapsto> r)\<rparr>
                  in (case logs_result rp of
                        Some e \<Rightarrow> (Inl e, w2)
                      | None \<Rightarrow>
                          (Inr (Started new_id),
                           w2\<lparr>streams := streams w2 @ [r], waits := waits w2 @ [(r, ident)]\<rparr>))))"

definition startBot :: "proc \<Rightarrow> replies \<Rightarrow> string \<Rightarrow> world \<Rightarrow> (error + started) \<times> world" where
  "startBot pe rp ident w =
     (let dir = path_join [DATA_DIR (cwd pe), ident]
      in if \<not> pathExists (fs w) dir then (Inl (Error ''Bot not found''), w)
         else
           (case (case bots_get w ident of None \<Rightarrow> None | Some (r, e) \<Rightarrow> container e) of
              Some c \<Rightarrow> (Inr (AlreadyRunning (cid c)), w)
            | None \<Rightarrow>
                (case discover rp (fs w) dir of
                   Inl e \<Rightarrow> (Inl e, w)
                 | Inr None \<Rightarrow> (Inl no_entry_point, w)
                 | Inr (Some entryPoint) \<Rightarrow> create_and_run pe rp ident dir entryPoint w)))"

text \<open>\<open>stopBot\<close>: \<open>stop_reply\<close> is the rejection, if any, of \<open>container.stop({ t: 5 })\<close>.\<close>

definition stopBot :: "error option \<Rightarrow> string \<Rightarrow> world \<Rightarrow> world" where
  "stopBot stop_reply ident w =
     (case bots_get w ident of
        None \<Rightarrow> w
      | Some (r, e) \<Rightarrow>
          (case container e of
             None \<Rightarrow> w
           | Some c \<Rightarrow>
               let w1 = (case stop_reply of
                           None \<Rightarrow> w
                         | Some err \<Rightarrow> w\<lparr>console := console w @ [(''stop err'', err)]\<rparr>)
               in w1\<lparr>bots := (bots w1)(ident := None)\<rparr>))"

text \<open>\<open>GET /api/bots/:id/status\<close>: \<open>running\<close> and \<open>containerId\<close>.\<close>

definition status :: "world \<Rightarrow> string \<Rightarrow> bool \<times> string option" where
  "status w ident =
     (case bots_get w ident of
        None \<Rightarrow> (False, None)
      | Some (r, e) \<Rightarrow>
          (case container e of
             None \<Rightarrow> (False, None)
           | Some c \<Rightarrow> (True, if cid c = [] then None else Some (cid c))))"

section \<open>Log buffer and fan-out\<close>

text \<open>The timestamped line built at lines 234 and 244; \<open>ts\<close> is
  \<open>new Date().toISOString()\<close>.\<close>

definition stamp :: "string \<Rightarrow> string \<Rightarrow> string" where
  "stamp ts text = ''['' @ ts @ ''] '' @ text"

text \<open>\<open>for (const l of entry.listeners) try { l(msg); } catch (e) {}\<close>: each listener is
  the \<open>onLog\<close> of one connection and sends one \<open>log\<close> message on it.\<close>

definition deliver :: "nat list \<Rightarrow> string \<Rightarrow> (nat \<times> ws_msg) list" where
  "deliver ls msg = map (\<lambda>l. (l, Log msg)) ls"

text \<open>\<open>logStream.on('data', ...)\<close> of the entry at address \<open>r\<close> (lines 233 to 240).\<close>

definition on_data :: "nat \<Rightarrow> string \<Rightarrow> string \<Rightarrow> world \<Rightarrow> world" where
  "on_data r ts chunk w =
     (if r < length (heap w) then
        let e = heap w ! r;
            msg = stamp ts chunk;
            pushed = logs e @ [msg];
            kept = (if length pushed > 2000 then tl pushed else pushed)
        in w\<lparr>heap := (heap w)[r := e\<lparr>logs := kept\<rparr>],
              sent := sent w @ deliver (listeners e) msg\<rparr>
      else w)"

text \<open>\<open>container.wait().then(...)\<close> of the entry at address \<open>r\<close>, started for \<open>ident\<close>
  (lines 243 to 248); \<open>res\<close> is \<open>JSON.stringify\<close> of the exit result.\<close>

definition on_exit :: "nat \<Rightarrow> string \<Rightarrow> string \<Rightarrow> string \<Rightarrow> world \<Rightarrow> world" where
  "on_exit r ident ts res w =
     (let msg = stamp ts (''container exited '' @ res);
          w1 = (if r < length (heap w) then
                  let e = heap w ! r
                  in w\<lparr>heap := (heap w)[r := e\<lparr>logs := logs e @ [msg]\<rparr>],
                       sent := sent w @ deliver (listeners e) msg\<rparr>
                else w)
      in w1\<lparr>bots := (bots w1)(ident := None)\<rparr>)"

text \<open>\<open>Array.prototype.slice(-n)\<close> and \<open>Set.prototype.add\<close> / \<open>delete\<close> on a set kept in
  insertion order.\<close>

definition slice_last :: "nat \<Rightarrow> 'a list \<Rightarrow> 'a list" where
  "slice_last n xs = drop (length xs - n) xs"

definition set_add :: "nat \<Rightarrow> nat list \<Rightarrow> nat list" where
  "set_add x xs = (if x \<in> set xs then xs else xs @ [x])"

definition set_delete :: "nat \<Rightarrow> nat list \<Rightarrow> nat list" where
  "set_delete x xs = filter (\<lambda>y. y \<noteq> x) xs"

text \<open>\<open>wss.on('connection', ...)\<close> (lines 163 to 181); \<open>botId\<close> is
  \<open>url.searchParams.get('botId')\<close>. The new connection is number \<open>length (conns w)\<close>.\<close>

definition ws_connection :: "string option \<Rightarrow> world \<Rightarrow> world" where
  "ws_connection botId w =
     (let k = length (conns w);
          missing = w\<lparr>conns := conns w @ [None], sent := sent w @ [(k, ErrorMsg ''Missing botId'')]\<rparr>
      in case botId of
           None \<Rightarrow> missing
         | Some b \<Rightarrow>
             if b = [] then missing
             else
               (case bots_get w b of
                  None \<Rightarrow> w\<lparr>conns := conns w @ [None]\<rparr>
                | Some (r, e) \<Rightarrow>
                    w\<lparr>conns := conns w @ [Some r],
                      sent := sent w @ [(k, History (slice_last 200 (logs e)))],
                      heap := (heap w)[r := e\<lparr>listeners := set_add k (listeners e)\<rparr>]\<rparr>))"

text \<open>\<open>ws.on('close', ...)\<close> of connection \<open>k\<close>.\<close>

definition ws_close :: "nat \<Rightarrow> world \<Rightarrow> world" where
  "ws_close k w =
     (if k < length (conns w) then
        (case conns w ! k of
           None \<Rightarrow> w
         | Some r \<Rightarrow>
             if r < length (heap w) then
               w\<lparr>heap := (heap w)[r := (heap w ! r)\<lparr>listeners := set_delete k (listeners (heap w ! r))\<rparr>]\<rparr>
             else w)
      else w)"

text \<open>What connection \<open>k\<close> was sent, in order.\<close>

definition inbox :: "nat \<Rightarrow> world \<Rightarrow> ws_msg list" where
  "inbox k w = map snd (filter (\<lambda>m. fst m = k) (sent w))"


section \<open>Requests and events, one after the other\<close>

text \<open>
  The server reacts to HTTP requests, WebSocket connections and closes, chunks of a
  sandbox's output and sandbox exits. \<open>step\<close> runs the handler of one of them to its end;
  \<open>run\<close> does so for a list of them, in order. \<open>Filesystem f\<close> stands for what changes
  the files without going through the registry: the upload handler extracting a bundle, a
  sandbox writing into the directory mounted into it. A chunk reaches the \<open>data\<close> handler of an
  entry only when \<open>startBot\<close> attached one, and an exit reaches an observer only when one is
  pending (\<open>wait()\<close> resolves once).
\<close>

datatype event =
    Start replies string
  | Stop "error option" string
  | Restart "error option" replies string
  | Delete "error option" string
  | PutFile string "string option" string
  | Filesystem filesys
  | Data nat string string
  | Exit nat string string
  | Connect "string option"
  | Close nat

definition post_restart :: "proc \<Rightarrow> error option \<Rightarrow> replies \<Rightarrow> string \<Rightarrow> world \<Rightarrow> world" where
  "post_restart pe stop_reply rp ident w = snd (startBot pe rp ident (stopBot stop_reply ident w))"

definition delete_bot :: "proc \<Rightarrow> error option \<Rightarrow> string \<Rightarrow> world \<Rightarrow> world" where
  "delete_bot pe stop_reply ident w =
     (let w1 = (if bots w ident \<noteq> None then stopBot stop_reply ident w else w)
      in w1\<lparr>fs := remove (fs w1) (path_join [DATA_DIR (cwd pe), ident])\<rparr>)"

fun step :: "proc \<Rightarrow> world \<Rightarrow> event \<Rightarrow> world" where
  "step pe w (Start rp ident) = snd (startBot pe rp ident w)"
| "step pe w (Stop stop_reply ident) = stopBot stop_reply ident w"
| "step pe w (Restart stop_reply rp ident) = post_restart pe stop_reply rp ident w"
| "step pe w (Delete stop_reply ident) = delete_bot pe stop_reply ident w"
| "step pe w (PutFile ident rel text) = w\<lparr>fs := snd (put_file (cwd pe) (fs w) ident rel text)\<rparr>"
| "step pe w (Filesystem f) = w\<lparr>fs := f\<rparr>"
| "step pe w (Data r ts chunk) = (if r \<in> set (streams w) then on_data r ts chunk w else w)"
| "step pe w (Exit r ts res) =
     (case map_of (waits w) r of
        None \<Rightarrow> w
      | Some ident \<Rightarrow> on_exit r ident ts res (w\<lparr>waits := filter (\<lambda>p. fst p \<noteq> r) (waits w)\<rparr>))"
| "step pe w (Connect botId) = ws_connection botId w"
| "step pe w (Close k) = ws_close k w"

definition run :: "proc \<Rightarrow> event list \<Rightarrow> world \<Rightarrow> world" where
  "run pe evs w = foldl (step pe) w evs"

text \<open>The output chunks \<open>chunks\<close> (each with its timestamp) reaching the \<open>data\<close> handler of
  the entry at \<open>r\<close>, in order.\<close>

definition feed :: "nat \<Rightarrow> (string \<times> string) list \<Rightarrow> world \<Rightarrow> world" where
  "feed r chunks w = foldl (\<lambda>w' (ts, chunk). on_data r ts chunk w') w chunks"

definition stamped :: "(string \<times> string) list \<Rightarrow> string list" where
  "stamped chunks = map (\<lambda>(ts, chunk). stamp ts chunk) chunks"

text \<open>The lines that the events \<open>evs\<close>, run from the world \<open>w\<close>, append to the log buffer
  of the entry at \<open>r\<close>: one for each chunk that reaches its \<open>data\<close> handler and one for
  its exit.\<close>

definition exit_line :: "string \<Rightarrow> string \<Rightarrow> string" where
  "exit_line ts res = stamp ts (''container exited '' @ res)"

fun line_of :: "nat \<Rightarrow> world \<Rightarrow> event \<Rightarrow> string list" where
  "line_of r w (Data r' ts chunk) = (if r' = r \<and> r \<in> set (streams w) then [stamp ts chunk] else [])"
| "line_of r w (Exit r' ts res) = (if r' = r \<and> map_of (waits w) r \<noteq> None then [exit_line ts res] else [])"
| "line_of r w ev = []"

fun appended :: "proc \<Rightarrow> nat \<Rightarrow> world \<Rightarrow> event list \<Rightarrow> string list" where
  "appended pe r w [] = []"
| "appended pe r w (ev # evs) = line_of r w ev @ appended pe r (step pe w ev) evs"

section \<open>Calls of \<open>startBot\<close> in flight\<close>

text \<open>
  \<open>startBot\<close> is an \<open>async\<close> function: it runs without interruption from one \<open>await\<close> to
  the next, and while it waits the handlers of other requests run. A call in flight is at
  one of its waits:
  \<^item> \<open>AwaitDir\<close>: line 185, \<open>fs.pathExists(dir)\<close>;
  \<open>AwaitEntry\<close>: lines 193 to 198, the filesystem reads of the entry-point discovery,
  entered once the check of line 186 has passed;
  \<^item> \<open>AwaitCreate\<close>: line 211, \<open>docker.createContainer\<close>, called with the entry point found;
  \<^item> \<open>AwaitStart\<close>: line 226, \<open>container.start()\<close>;
  \<^item> \<open>AwaitLogs\<close>: line 232, \<open>container.logs\<close>, entered after \<open>bots.set(id, entry)\<close>;
  \<^item> \<open>Returned\<close>: the call has returned or thrown.

  \<open>start_step\<close> resumes a call at its wait and runs it to the next one.
\<close>

datatype start_task =
    AwaitDir
  | AwaitEntry
  | AwaitCreate string
  | AwaitStart container
  | AwaitLogs nat container
  | Returned "error + started"

fun start_step :: "proc \<Rightarrow> replies \<Rightarrow> string \<Rightarrow> start_task \<Rightarrow> world \<Rightarrow> start_task \<times> world" where
  "start_step pe rp ident AwaitDir w =
     (if \<not> pathExists (fs w) (path_join [DATA_DIR (cwd pe), ident])
      then (Returned (Inl (Error ''Bot not found'')), w)
      else (case (case bots_get w ident of None \<Rightarrow> None | Some (r, e) \<Rightarrow> container e) of
              Some c \<Rightarrow> (Returned (Inr (AlreadyRunning (cid c))), w)
            | None \<Rightarrow> (AwaitEntry, w)))"
| "start_step pe rp ident AwaitEntry w =
     (case discover rp (fs w) (path_join [DATA_DIR (cwd pe), ident]) of
        Inl e \<Rightarrow> (Returned (Inl e), w)
      | Inr None \<Rightarrow> (Returned (Inl no_entry_point), w)
      | Inr (Some entryPoint) \<Rightarrow> (AwaitCreate entryPoint, w))"
| "start_step pe rp ident (AwaitCreate entryPoint) w =
     (case create_result rp of
        Inl e \<Rightarrow> (Returned (Inl e), w)
      | Inr new_id \<Rightarrow>
          let c = new_container pe ident (path_join [DATA_DIR (cwd pe), ident]) entryPoint new_id
          in (AwaitStart c, w\<lparr>docker := docker w @ [c]\<rparr>))"
| "start_step pe rp ident (AwaitStart c) w =
     (case start_result rp of
        Some e \<Rightarrow> (Returned (Inl e), w)
      | None \<Rightarrow>
          (AwaitLogs (length (heap w)) c,
           w\<lparr>heap := heap w @ [\<lparr>container = Some c, logs = [], listeners = []\<rparr>],
             bots := (bots w)(ident \<mapsto> length (heap w))\<rparr>))"
| "start_step pe rp ident (AwaitLogs r c) w =
     (case logs_result rp of
        Some e \<Rightarrow> (Returned (Inl e), w)
      | None \<Rightarrow>
          (Returned (Inr (Started (cid c))),
           w\<lparr>streams := streams w @ [r], waits := waits w @ [(r, ident)]\<rparr>))"
| "start_step pe rp ident (Returned res) w = (Returned res, w)"

text \<open>A call run alone from its beginning through \<open>n\<close> waits.\<close>

fun start_steps :: "nat \<Rightarrow> proc \<Rightarrow> replies \<Rightarrow> string \<Rightarrow> start_task \<Rightarrow> world \<Rightarrow> start_task \<times> world" where
  "start_steps 0 pe rp ident t w = (t, w)"
| "start_steps (Suc n) pe rp ident t w =
     (case start_step pe rp ident t w of (t', w') \<Rightarrow> start_steps n pe rp ident t' w')"

text \<open>Two calls \<open>A\<close> and \<open>B\<close> in flight on the same world; the schedule says, wait after
  wait, which of the two is resumed (\<open>True\<close> for \<open>A\<close>).\<close>

fun interleave ::
  "proc \<Rightarrow> replies \<times> string \<Rightarrow> replies \<times> string \<Rightarrow> bool list
     \<Rightarrow> start_task \<times> start_task \<times> world \<Rightarrow> start_task \<times> start_task \<times> world" where
  "interleave pe A B [] s = s"
| "interleave pe A B (a_runs # sched) (tA, tB, w) =
     (if a_runs
      then (case start_step pe (fst A) (snd A) tA w of (tA', w') \<Rightarrow> interleave pe A B sched (tA', tB, w'))
      else (case start_step pe (fst B) (snd B) tB w of (tB', w') \<Rightarrow> interleave pe A B sched (tA, tB', w')))"

section \<open>Auxiliary notions for the proofs\<close>

text \<open>A list of path pieces written out with a slash before each; pieces that are
  non-empty and free of slashes; pieces that normalisation leaves alone; the pieces of
  \<open>DATA_DIR\<close> and of a bundle root.\<close>

definition render :: "string list \<Rightarrow> string" where
  "render xs = concat (map (\<lambda>s. CHR ''/'' # s) xs)"

definition plain :: "string \<Rightarrow> bool" where
  "plain s = (s \<noteq> [] \<and> CHR ''/'' \<notin> set s)"

definition clean :: "string \<Rightarrow> bool" where
  "clean s = (plain s \<and> s \<noteq> ''.'' \<and> s \<noteq> ''..'')"

definition base :: "string \<Rightarrow> string list" where
  "base wd = norm_segs False wd @ [''data'', ''bots'']"

definition under_root :: "string \<Rightarrow> string \<Rightarrow> string list" where
  "under_root wd ident = foldl (norm_step False) (base wd) (split_path ident)"

text \<open>Well-formed worlds: every address points into the heap, every listener and every
  recipient of a message is a connection that exists, a listener set holds a connection
  once, and an entry has at most one pending exit observer.\<close>

definition wf_world :: "world \<Rightarrow> bool" where
  "wf_world w =
     ((\<forall>i < length (heap w). distinct (listeners (heap w ! i))
          \<and> (\<forall>l \<in> set (listeners (heap w ! i)). l < length (conns w)))
      \<and> (\<forall>m \<in> set (sent w). fst m < length (conns w))
      \<and> (\<forall>i r. bots w i = Some r \<longrightarrow> r < length (heap w))
      \<and> (\<forall>r \<in> set (streams w). r < length (heap w))
      \<and> (\<forall>p \<in> set (waits w). fst p < length (heap w))
      \<and> distinct (map fst (waits w)))"

text \<open>The connection \<open>k\<close> is a listener of no entry.\<close>

definition deaf :: "nat \<Rightarrow> world \<Rightarrow> bool" where
  "deaf k w = (\<forall>i < length (heap w). k \<notin> set (listeners (heap w ! i)))"

text \<open>The connection \<open>k\<close> is a listener of the entry at \<open>r\<close> and of no other.\<close>

definition tuned :: "nat \<Rightarrow> nat \<Rightarrow> world \<Rightarrow> bool" where
  "tuned k r w =
     (r < length (heap w) \<and> k < length (conns w)
      \<and> (\<forall>i < length (heap w). (k \<in> set (listeners (heap w ! i))) = (i = r)))"

text \<open>The entry at \<open>r\<close> was started for the bundle \<open>ident\<close> and the lines \<open>A\<close> have been
  appended to its buffer since: its \<open>data\<close> handler is attached, only \<open>ident\<close> can be
  registered with it, and as long as its exit observer is pending the buffer holds the
  last 2000 of \<open>A\<close>.\<close>

definition serving :: "nat \<Rightarrow> string \<Rightarrow> string list \<Rightarrow> world \<Rightarrow> bool" where
  "serving r ident A w =
     (r < length (heap w) \<and> r \<in> set (streams w)
      \<and> (map_of (waits w) r = None \<or> map_of (waits w) r = Some ident)
      \<and> (\<forall>i. bots w i = Some r \<longrightarrow> i = ident \<and> map_of (waits w) r = Some ident)
      \<and> (map_of (waits w) r = Some ident \<longrightarrow> logs (heap w ! r) = slice_last 2000 A))"

section \<open>Concrete inputs\<close>

text \<open>A server started in \<open>/srv/app\<close>. The bundle \<open>abc\<close> holds \<open>index.js\<close> and a symbolic
  link \<open>link\<close> to \<open>/etc\<close>; a second bundle is named \<open>abcd\<close>.\<close>

definition no_mime :: "string \<Rightarrow> string option" where
  "no_mime p = None"

definition fs_example :: filesys where
  "fs_example =
     \<lparr>realpath = (\<lambda>p. if p = ''/srv/app/data/bots/abc/link/passwd'' then ''/etc/passwd'' else p),
      nodes = (\<lambda>p. if p = ''/etc/passwd'' then Some (File ''root:x:0:0'')
                    else if p = ''/srv/app/data/bots/abc'' then Some Dir
                    else if p = ''/srv/app/data/bots/abc/index.js'' then Some (File ''console.log(1)'')
                    else if p = ''/srv/app/data/bots/abcd'' then Some Dir
                    else if p = ''/srv/app/data/bots/abcd/config.json'' then Some (File ''secret'')
                    else None)\<rparr>"

text \<open>The process; what \<open>JSON.parse\<close> and the read of \<open>main\<close> give on three manifest
  texts (\<open>{}\<close>, a manifest whose \<open>main\<close> is \<open>bot.js\<close>, and anything else, which does
  not parse); a daemon that accepts everything, daemons that reject \<open>createContainer\<close>,
  \<open>container.start\<close> or \<open>container.logs\<close>; and the world after the first Start of \<open>abc\<close>.\<close>

definition pe_example :: proc where
  "pe_example = \<lparr>cwd = ''/srv/app'', SANDBOX_IMAGE = None\<rparr>"

definition quoted :: "string \<Rightarrow> string" where
  "quoted s = CHR 0x22 # s @ [CHR 0x22]"

definition manifest_main :: string where
  "manifest_main = ''{'' @ quoted ''main'' @ '':'' @ quoted ''bot.js'' @ ''}''"

definition parse_example :: "string \<Rightarrow> error + string option" where
  "parse_example text =
     (if text = ''{}'' then Inr None
      else if text = manifest_main then Inr (Some ''bot.js'')
      else Inl (Rejected ''SyntaxError''))"

definition rp_ok :: replies where
  "rp_ok = \<lparr>parse_main = parse_example, create_result = Inr ''c1'',
            start_result = None, logs_result = None\<rparr>"

definition rp_start_fails :: replies where
  "rp_start_fails = \<lparr>parse_main = parse_example, create_result = Inr ''c2'',
            start_result = Some (Rejected ''start failed''), logs_result = None\<rparr>"

definition rp_create_fails :: replies where
  "rp_create_fails = \<lparr>parse_main = parse_example, create_result = Inl (Rejected ''no such image''),
            start_result = None, logs_result = None\<rparr>"

definition rp_main :: replies where
  "rp_main = \<lparr>parse_main = parse_example, create_result = Inr ''c3'',
            start_result = None, logs_result = None\<rparr>"

definition rp_logs_fails :: replies where
  "rp_logs_fails = \<lparr>parse_main = parse_example, create_result = Inr ''c4'',
            start_result = None, logs_result = Some (Rejected ''logs failed'')\<rparr>"

definition c_started :: container where
  "c_started = new_container pe_example ''abc'' ''/srv/app/data/bots/abc'' ''/bot/index.js'' ''c1''"


definition w_started :: world where
  "w_started = snd (startBot pe_example rp_ok ''abc'' (init fs_example))"

text \<open>The world after a first subscriber has connected to the running \<open>abc\<close>, the entry
  of \<open>abc\<close> in it, and the world in which the sandbox of \<open>abc\<close> has exited.\<close>

definition w_subscribed :: world where
  "w_subscribed = ws_connection (Some ''abc'') w_started"

definition e_subscribed :: entry where
  "e_subscribed = \<lparr>container = Some c_started, logs = [], listeners = [0]\<rparr>"

definition w_exited :: world where
  "w_exited = run pe_example [Start rp_ok ''abc'', Exit 0 ''t0'' ''{}''] (init fs_example)"

section \<open>Properties of the path functions\<close>

lemma split_path_ne [simp]: "split_path p \<noteq> []"
  by (induction p) (auto split: list.splits)

lemma split_path_Cons:
  "split_path (c # cs) =
     (if c = CHR ''/'' then [] # split_path cs else (c # hd (split_path cs)) # tl (split_path cs))"
  by (cases "split_path cs") auto

lemma split_path_append: "split_path (a @ CHR ''/'' # b) = split_path a @ split_path b"
  by (induction a) (auto split: list.splits)

lemma split_path_noslash: "CHR ''/'' \<notin> set s \<Longrightarrow> split_path s = [s]"
  by (induction s) auto

lemma split_segs_noslash: "s \<in> set (split_path p) \<Longrightarrow> CHR ''/'' \<notin> set s"
  by (induction p arbitrary: s) (auto split: if_splits list.splits)

lemma render_simps [simp]: "render [] = []" "render (x # xs) = CHR ''/'' # x @ render xs"
  "render (xs @ ys) = render xs @ render ys"
  by (simp_all add: render_def)

lemma slash_join: "xs \<noteq> [] \<Longrightarrow> CHR ''/'' # join_slash xs = render xs"
  by (induction xs rule: join_slash.induct) auto

lemma split_path_noslash_append:
  "CHR ''/'' \<notin> set a \<Longrightarrow> split_path (a @ s) = (a @ hd (split_path s)) # tl (split_path s)"
proof (induction a)
  case Nil
  then show ?case by (cases "split_path s") auto
next
  case (Cons c a)
  then show ?case by (auto simp add: split_path_Cons simp del: split_path.simps)
qed

lemma split_render: "\<forall>s\<in>set xs. plain s \<Longrightarrow> split_path (render xs) = [] # xs"
  by (induction xs) (auto simp: split_path_noslash_append plain_def)

lemma split_render_trail: "\<forall>s\<in>set xs. plain s \<Longrightarrow> split_path (render xs @ ''/'') = [] # xs @ [[]]"
  by (induction xs) (auto simp: split_path_noslash_append plain_def)

lemma segments_render: "\<forall>s\<in>set xs. plain s \<Longrightarrow> segments (render xs) = xs"
  by (simp add: segments_def split_render filter_id_conv plain_def)

lemma segments_render_trail: "\<forall>s\<in>set xs. plain s \<Longrightarrow> segments (render xs @ ''/'') = xs"
  by (simp add: segments_def split_render_trail filter_id_conv plain_def)

lemma prefix_noslash_same:
  assumes "CHR ''/'' \<notin> set a" "CHR ''/'' \<notin> set b" "prefix (a @ CHR ''/'' # u) (b @ v)"
    and "v = [] \<or> hd v = CHR ''/''"
  shows "a = b \<and> prefix (CHR ''/'' # u) v"
  using assms
proof (induction a arbitrary: b)
  case Nil
  then show ?case by (cases b) (auto)
next
  case (Cons c a)
  show ?case
  proof (cases b)
    case Nil
    with Cons.prems show ?thesis by (cases v) auto
  next
    case (Cons d b')
    with Cons.prems Cons.IH[of b'] show ?thesis by auto
  qed
qed

lemma prefix_noslash_piece:
  assumes "CHR ''/'' \<notin> set x" "CHR ''/'' \<notin> set b" "prefix x (b @ v)"
    and "v = [] \<or> hd v = CHR ''/''"
  shows "prefix x b"
  using assms
proof (induction x arbitrary: b)
  case Nil
  then show ?case by simp
next
  case (Cons c x)
  show ?case
  proof (cases b)
    case Nil
    with Cons.prems show ?thesis by (cases v) auto
  next
    case (Cons d b')
    with Cons.prems Cons.IH[of b'] show ?thesis by auto
  qed
qed

lemma render_head: "render ys @ t = [] \<or> hd (render ys @ t) = CHR ''/''" if "t = [] \<or> t = ''/''"
  using that by (cases ys) auto

lemma render_prefix_segments:
  assumes "\<forall>s\<in>set xs. plain s" "plain x" "\<forall>s\<in>set ys. plain s" "t = [] \<or> t = ''/''"
    and "prefix (render (xs @ [x])) (render ys @ t)"
  shows "prefix xs ys \<and> length xs < length ys \<and> prefix x (ys ! length xs)"
  using assms
proof (induction xs arbitrary: ys)
  case Nil
  show ?case
  proof (cases ys)
    case Nil
    with Nil.prems show ?thesis by (auto simp: plain_def)
  next
    case (Cons y ys')
    with Nil.prems have "prefix x (y @ (render ys' @ t))" by simp
    moreover have "render ys' @ t = [] \<or> hd (render ys' @ t) = CHR ''/''"
      using Nil.prems(4) by (rule render_head)
    ultimately have "prefix x y"
      using Nil.prems Cons by (intro prefix_noslash_piece[of x y "render ys' @ t"]) (auto simp: plain_def)
    then show ?thesis using Cons by simp
  qed
next
  case (Cons a xs)
  show ?case
  proof (cases ys)
    case Nil
    with Cons.prems show ?thesis by (auto simp: plain_def)
  next
    case ys: (Cons y ys')
    have "prefix (a @ CHR ''/'' # tl (render (xs @ [x]))) (y @ (render ys' @ t))"
      using Cons.prems(5) ys by (cases xs) auto
    moreover have "render ys' @ t = [] \<or> hd (render ys' @ t) = CHR ''/''"
      using Cons.prems(4) by (rule render_head)
    ultimately have "a = y \<and> prefix (CHR ''/'' # tl (render (xs @ [x]))) (render ys' @ t)"
      using Cons.prems ys
      by (intro prefix_noslash_same) (auto simp: plain_def)
    moreover have "CHR ''/'' # tl (render (xs @ [x])) = render (xs @ [x])"
      by (cases xs) auto
    ultimately have "a = y" "prefix (render (xs @ [x])) (render ys' @ t)" by simp_all
    with Cons.IH[of ys'] Cons.prems ys show ?thesis by auto
  qed
qed


lemma norm_step_clean:
  "\<forall>s\<in>set acc. clean s \<Longrightarrow> CHR ''/'' \<notin> set seg \<Longrightarrow> \<forall>s\<in>set (norm_step False acc seg). clean s"
  by (auto simp: norm_step_def plain_def clean_def dest: in_set_butlastD)

lemma foldl_norm_clean:
  "\<forall>s\<in>set acc. clean s \<Longrightarrow> \<forall>seg\<in>set segs. CHR ''/'' \<notin> set seg \<Longrightarrow>
     \<forall>s\<in>set (foldl (norm_step False) acc segs). clean s"
proof (induction segs arbitrary: acc)
  case Nil then show ?case by simp
next
  case (Cons a segs)
  have "\<forall>s\<in>set (norm_step False acc a). clean s"
    using Cons.prems by (intro norm_step_clean) auto
  then show ?case using Cons by simp
qed

lemma norm_split_clean:
  "\<forall>s\<in>set acc. clean s \<Longrightarrow> \<forall>s\<in>set (foldl (norm_step False) acc (split_path p)). clean s"
  by (rule foldl_norm_clean) (auto dest: split_segs_noslash)

lemma foldl_norm_id:
  "\<forall>s\<in>set xs. clean s \<Longrightarrow> foldl (norm_step b) acc xs = acc @ xs"
  by (induction xs arbitrary: acc) (auto simp: norm_step_def clean_def plain_def)

lemma clean_base: "\<forall>s\<in>set (base wd). clean s"
  using norm_split_clean[of "[]" wd]
  by (auto simp: base_def norm_segs_def clean_def plain_def)

lemma split_data_bots: "split_path ''./data/bots/'' = [''.'', ''data'', ''bots'', []]"
  by code_simp

lemma DATA_DIR_render: "DATA_DIR wd = render (base wd)"
proof -
  have "norm_segs False (wd @ ''/'' @ ''./data/bots'' @ ''/'') = base wd"
    using split_path_append[of wd "''./data/bots/''"]
    by (simp add: norm_segs_def base_def split_data_bots norm_step_def)
  then show ?thesis
    by (simp add: DATA_DIR_def path_resolve_def normalizeString_def slash_join base_def)
qed

lemma segments_DATA_DIR: "segments (DATA_DIR wd) = base wd"
  using clean_base[of wd] by (simp add: DATA_DIR_render segments_render clean_def)

lemma clean_under_root: "\<forall>s\<in>set (under_root wd ident). clean s"
  unfolding under_root_def by (rule norm_split_clean) (rule clean_base)

lemma join_slash_Nil_iff: "\<forall>s\<in>set xs. s \<noteq> [] \<Longrightarrow> join_slash xs = [] \<longleftrightarrow> xs = []"
  by (induction xs rule: join_slash.induct) auto

lemma normalize_abs:
  assumes "\<forall>s\<in>set ds. clean s" "ds \<noteq> []" "tl_part \<noteq> []"
  shows "normalize (render ds @ CHR ''/'' # tl_part) =
     (let segs = foldl (norm_step False) ds (split_path tl_part)
      in if segs = [] then ''/'' else render segs @ (if last tl_part = CHR ''/'' then ''/'' else []))"
proof -
  let ?p = "render ds @ CHR ''/'' # tl_part"
  let ?segs = "foldl (norm_step False) ds (split_path tl_part)"
  have hd: "hd ?p = CHR ''/''" using assms(2) by (cases ds) auto
  have ne: "?p \<noteq> []" by simp
  have last: "last ?p = last tl_part" using assms(3) by simp
  have pl: "\<forall>s\<in>set ds. plain s" using assms(1) by (auto simp: clean_def)
  have "norm_segs False ?p = ?segs"
    using assms(1) by (simp add: norm_segs_def split_path_append split_render[OF pl] norm_step_def foldl_norm_id)
  moreover have "\<forall>s\<in>set ?segs. s \<noteq> []"
    using norm_split_clean[OF assms(1), of tl_part] by (auto simp: clean_def plain_def)
  ultimately show ?thesis
    using hd ne last
    by (auto simp: normalize_def normalizeString_def Let_def join_slash_Nil_iff slash_join[symmetric]
        simp del: render_simps)
qed

lemma root_form:
  assumes "ident \<noteq> []"
  shows "path_join [DATA_DIR wd, ident] =
     (if under_root wd ident = [] then ''/''
      else render (under_root wd ident) @ (if last ident = CHR ''/'' then ''/'' else []))"
proof -
  have ne: "base wd \<noteq> []" by (simp add: base_def)
  have "DATA_DIR wd \<noteq> []" using ne by (cases "base wd") (auto simp: DATA_DIR_render)
  then have "path_join [DATA_DIR wd, ident] = normalize (render (base wd) @ CHR ''/'' # ident)"
    using assms by (simp add: path_join_def DATA_DIR_render)
  then show ?thesis
    using normalize_abs[OF clean_base ne assms] by (simp add: under_root_def Let_def)
qed

lemma file_form:
  assumes "ident \<noteq> []" "rel \<noteq> []"
  shows "path_join [DATA_DIR wd, ident, rel] =
     (let segs = foldl (norm_step False) (under_root wd ident) (split_path rel)
      in if segs = [] then ''/'' else render segs @ (if last rel = CHR ''/'' then ''/'' else []))"
proof -
  have ne: "base wd \<noteq> []" by (simp add: base_def)
  have "DATA_DIR wd \<noteq> []" using ne by (cases "base wd") (auto simp: DATA_DIR_render)
  then have "path_join [DATA_DIR wd, ident, rel] =
      normalize (render (base wd) @ CHR ''/'' # (ident @ CHR ''/'' # rel))"
    using assms by (simp add: path_join_def DATA_DIR_render)
  moreover have "last (ident @ CHR ''/'' # rel) = last rel" using assms by simp
  ultimately show ?thesis
    using normalize_abs[OF clean_base ne, of "ident @ CHR ''/'' # rel"]
    by (simp add: under_root_def Let_def split_path_append)
qed


lemma segments_slash: "segments ''/'' = []"
  by (simp add: segments_def)

lemma under_root_plain_ident:
  assumes "ident \<noteq> []" "CHR ''/'' \<notin> set ident" "ident \<noteq> ''.''" "ident \<noteq> ''..''"
  shows "under_root wd ident = base wd @ [ident]"
  using assms by (simp add: under_root_def split_path_noslash norm_step_def)

lemma segments_file:
  assumes "ident \<noteq> []" "rel \<noteq> []"
  shows "segments (path_join [DATA_DIR wd, ident, rel]) =
           foldl (norm_step False) (under_root wd ident) (split_path rel)"
proof -
  let ?segs = "foldl (norm_step False) (under_root wd ident) (split_path rel)"
  have "\<forall>s\<in>set ?segs. plain s"
    using norm_split_clean[OF clean_under_root, of wd ident rel] by (auto simp: clean_def)
  then show ?thesis
    by (auto simp: file_form[OF assms] Let_def segments_slash segments_render segments_render_trail)
qed

lemma guard_accepts_nested:
  assumes "ident \<noteq> []" "CHR ''/'' \<notin> set ident" "ident \<noteq> ''.''" "ident \<noteq> ''..''" "rel \<noteq> []"
    and "nested_under (path_join [DATA_DIR wd, ident, rel]) (path_join [DATA_DIR wd, ident])"
  shows "startsWith (path_join [DATA_DIR wd, ident, rel]) (path_join [DATA_DIR wd, ident])"
proof -
  let ?rs = "base wd @ [ident]"
  let ?segs = "foldl (norm_step False) ?rs (split_path rel)"
  have ur: "under_root wd ident = ?rs" using assms(1-4) by (rule under_root_plain_ident)
  have li: "last ident \<noteq> CHR ''/''" using assms(1,2) by (metis last_in_set)
  have root: "path_join [DATA_DIR wd, ident] = render ?rs"
    using li by (simp add: root_form[OF assms(1)] ur)
  have plain_rs: "\<forall>s\<in>set ?rs. plain s"
    using clean_under_root[of wd ident] by (auto simp: ur clean_def)
  have "segments (path_join [DATA_DIR wd, ident]) = ?rs"
    unfolding root using plain_rs by (rule segments_render)
  moreover have sf: "segments (path_join [DATA_DIR wd, ident, rel]) = ?segs"
    using segments_file[OF assms(1,5), of wd] by (simp add: ur)
  ultimately have "prefix ?rs ?segs" using assms(6) by (simp add: nested_under_def)
  then obtain more where more: "?segs = ?rs @ more" by (auto simp: prefix_def)
  then have "?segs \<noteq> []" by auto
  then have "path_join [DATA_DIR wd, ident, rel] =
      render ?rs @ render more @ (if last rel = CHR ''/'' then ''/'' else [])"
    using more by (simp add: file_form[OF assms(1,5)] ur Let_def)
  then show ?thesis unfolding startsWith_def root by simp
qed

lemma guard_rejects_outside:
  assumes "ident \<noteq> []" "CHR ''/'' \<notin> set ident" "ident \<noteq> ''.''" "ident \<noteq> ''..''" "rel \<noteq> []"
    and "startsWith (path_join [DATA_DIR wd, ident, rel]) (path_join [DATA_DIR wd, ident])"
  shows "below_named (DATA_DIR wd) ident (path_join [DATA_DIR wd, ident, rel])"
proof -
  let ?rs = "base wd @ [ident]"
  let ?segs = "foldl (norm_step False) ?rs (split_path rel)"
  let ?t = "if last rel = CHR ''/'' then ''/'' else []"
  have ur: "under_root wd ident = ?rs" using assms(1-4) by (rule under_root_plain_ident)
  have li: "last ident \<noteq> CHR ''/''" using assms(1,2) by (metis last_in_set)
  have root: "path_join [DATA_DIR wd, ident] = render ?rs"
    using li by (simp add: root_form[OF assms(1)] ur)
  have sf: "segments (path_join [DATA_DIR wd, ident, rel]) = ?segs"
    using segments_file[OF assms(1,5), of wd] by (simp add: ur)
  have plain_base: "\<forall>s\<in>set (base wd). plain s"
    using clean_base[of wd] by (auto simp: clean_def)
  have plain_segs: "\<forall>s\<in>set ?segs. plain s"
    using norm_split_clean[OF clean_under_root, of wd ident rel] by (auto simp: clean_def ur)
  have long: "length (render ?rs) \<ge> 2" using assms(1) by (cases ident) auto
  have "?segs \<noteq> []"
  proof
    assume "?segs = []"
    then have "path_join [DATA_DIR wd, ident, rel] = ''/''"
      by (simp add: file_form[OF assms(1,5)] ur Let_def)
    with assms(6) have "prefix (render ?rs) ''/''" by (simp add: startsWith_def root)
    then have "length (render ?rs) \<le> 1" by (auto dest: prefix_length_le)
    with long show False by simp
  qed
  then have "path_join [DATA_DIR wd, ident, rel] = render ?segs @ ?t"
    by (simp add: file_form[OF assms(1,5)] ur Let_def)
  with assms(6) have "prefix (render ?rs) (render ?segs @ ?t)"
    by (simp add: startsWith_def root)
  then have "prefix (base wd) ?segs \<and> length (base wd) < length ?segs
      \<and> prefix ident (?segs ! length (base wd))"
    using plain_base plain_segs assms(1,2)
    by (intro render_prefix_segments[where t = ?t]) (auto simp: plain_def)
  then show ?thesis
    by (simp add: below_named_def segments_DATA_DIR sf Let_def)
qed



section \<open>The path boundary guard\<close>

lemma get_file_guard:
  "rel \<noteq> [] \<Longrightarrow>
   (get_file wd mime f ident (Some rel) = Status 400 ''Invalid path'')
     = (\<not> startsWith (path_join [DATA_DIR wd, ident, rel]) (path_join [DATA_DIR wd, ident]))"
  by (auto simp: get_file_def Let_def split: sum.splits)

lemma put_file_guard:
  "rel \<noteq> [] \<Longrightarrow>
   (fst (put_file wd f ident (Some rel) text) = Status 400 ''Invalid path'')
     = (\<not> startsWith (path_join [DATA_DIR wd, ident, rel]) (path_join [DATA_DIR wd, ident]))"
  by (auto simp: put_file_def Let_def split: sum.splits)

lemma put_file_rejected:
  "rel \<noteq> [] \<Longrightarrow>
   \<not> startsWith (path_join [DATA_DIR wd, ident, rel]) (path_join [DATA_DIR wd, ident]) \<Longrightarrow>
   put_file wd f ident (Some rel) text = (Status 400 ''Invalid path'', f)"
  by (simp add: put_file_def Let_def)

text \<open>
  C1 (as amended). The guard is lexical: it compares the normalised text of
  \<open>path.join(DATA_DIR, id, rel)\<close> with that of \<open>path.join(DATA_DIR, id)\<close> and never asks the
  filesystem where a path leads. For a bundle id that is a single directory name, the read
  and the write endpoint
  \<^item> accept every requested path whose normalised join is the bundle root or lies below it;
  \<^item> reject with \<open>Invalid path\<close>, the write leaving the filesystem as it was, every requested
    path whose normalised join leaves \<open>DATA_DIR\<close>, is \<open>DATA_DIR\<close> itself, or enters an entry
    of \<open>DATA_DIR\<close> whose name does not begin with the bundle id.
\<close>

theorem path_guard_lexical:
  assumes "ident \<noteq> []" "CHR ''/'' \<notin> set ident" "ident \<noteq> ''.''" "ident \<noteq> ''..''" "rel \<noteq> []"
  shows "(nested_under (path_join [DATA_DIR wd, ident, rel]) (path_join [DATA_DIR wd, ident]) \<longrightarrow>
            get_file wd mime f ident (Some rel) \<noteq> Status 400 ''Invalid path''
            \<and> fst (put_file wd f ident (Some rel) text) \<noteq> Status 400 ''Invalid path'')
       \<and> (\<not> below_named (DATA_DIR wd) ident (path_join [DATA_DIR wd, ident, rel]) \<longrightarrow>
            get_file wd mime f ident (Some rel) = Status 400 ''Invalid path''
            \<and> put_file wd f ident (Some rel) text = (Status 400 ''Invalid path'', f))"
proof (intro conjI impI)
  assume n: "nested_under (path_join [DATA_DIR wd, ident, rel]) (path_join [DATA_DIR wd, ident])"
  have sw: "startsWith (path_join [DATA_DIR wd, ident, rel]) (path_join [DATA_DIR wd, ident])"
    using assms n by (rule guard_accepts_nested)
  show "get_file wd mime f ident (Some rel) \<noteq> Status 400 ''Invalid path''"
    using sw by (simp add: get_file_guard[OF assms(5)])
  show "fst (put_file wd f ident (Some rel) text) \<noteq> Status 400 ''Invalid path''"
    using sw by (simp add: put_file_guard[OF assms(5)])
next
  assume b: "\<not> below_named (DATA_DIR wd) ident (path_join [DATA_DIR wd, ident, rel])"
  have sw: "\<not> startsWith (path_join [DATA_DIR wd, ident, rel]) (path_join [DATA_DIR wd, ident])"
    using guard_rejects_outside[OF assms] b by blast
  show "get_file wd mime f ident (Some rel) = Status 400 ''Invalid path''"
    using sw by (simp add: get_file_guard[OF assms(5)])
  show "put_file wd f ident (Some rel) text = (Status 400 ''Invalid path'', f)"
    using sw by (rule put_file_rejected[OF assms(5)])
qed

theorem path_guard_lexical_witness:
  "nested_under (path_join [DATA_DIR ''/srv/app'', ''abc'', ''lib/../index.js''])
                (path_join [DATA_DIR ''/srv/app'', ''abc''])
   \<and> get_file ''/srv/app'' no_mime fs_example ''abc'' (Some ''lib/../index.js'')
        \<noteq> Status 400 ''Invalid path''
   \<and> fst (put_file ''/srv/app'' fs_example ''abc'' (Some ''lib/../index.js'') ''x'')
        \<noteq> Status 400 ''Invalid path''
   \<and> \<not> below_named (DATA_DIR ''/srv/app'') ''abc''
          (path_join [DATA_DIR ''/srv/app'', ''abc'', ''../../../etc/passwd''])
   \<and> get_file ''/srv/app'' no_mime fs_example ''abc'' (Some ''../../../etc/passwd'')
        = Status 400 ''Invalid path''
   \<and> put_file ''/srv/app'' fs_example ''abc'' (Some ''../../../etc/passwd'') ''x''
        = (Status 400 ''Invalid path'', fs_example)"
proof -
  have h: "''abc'' \<noteq> []" "CHR ''/'' \<notin> set ''abc''" "''abc'' \<noteq> ''.''" "''abc'' \<noteq> ''..''"
    by simp_all
  have r1: "''lib/../index.js'' \<noteq> []" and r2: "''../../../etc/passwd'' \<noteq> []" by simp_all
  have n: "nested_under (path_join [DATA_DIR ''/srv/app'', ''abc'', ''lib/../index.js''])
                (path_join [DATA_DIR ''/srv/app'', ''abc''])"
    by code_simp
  have b: "\<not> below_named (DATA_DIR ''/srv/app'') ''abc''
          (path_join [DATA_DIR ''/srv/app'', ''abc'', ''../../../etc/passwd''])"
    by code_simp
  show ?thesis
    using n b
      path_guard_lexical[OF h r1, of "''/srv/app''" no_mime fs_example "''x''"]
      path_guard_lexical[OF h r2, of "''/srv/app''" no_mime fs_example "''x''"]
    by blast
qed

text \<open>
  C1 as stated fails on a symbolic link: \<open>abc/link\<close> points to \<open>/etc\<close>, the requested path
  \<open>link/passwd\<close> stays below the bundle root as text, the guard lets it through, and the
  file read and the file written are \<open>/etc/passwd\<close>, outside the bundle root.
\<close>

theorem symlink_escape_not_rejected:
  "get_file ''/srv/app'' no_mime fs_example ''abc'' (Some ''link/passwd'')
     = FileContent ''root:x:0:0'' ''text/plain''
   \<and> fst (put_file ''/srv/app'' fs_example ''abc'' (Some ''link/passwd'') ''x'') = OkTrue
   \<and> \<not> nested_under
         (realpath fs_example (path_join [DATA_DIR ''/srv/app'', ''abc'', ''link/passwd'']))
         (realpath fs_example (path_join [DATA_DIR ''/srv/app'', ''abc'']))"
  by code_simp

text \<open>The guard compares text, not path pieces: a sibling directory whose name begins with
  the bundle id passes it although the path has left the bundle root.\<close>

lemma sibling_sharing_prefix_passes:
  "get_file ''/srv/app'' no_mime fs_example ''abc'' (Some ''../abcd/config.json'')
     = FileContent ''secret'' ''text/plain''
   \<and> \<not> nested_under (path_join [DATA_DIR ''/srv/app'', ''abc'', ''../abcd/config.json''])
                     (path_join [DATA_DIR ''/srv/app'', ''abc''])"
  by code_simp

section \<open>Start, Stop and the registry\<close>

lemma startBot_fs [simp]: "fs (snd (startBot pe rp ident w)) = fs w"
  by (auto simp: startBot_def create_and_run_def Let_def split: option.splits sum.splits prod.splits)

lemma startBot_Started:
  assumes "startBot pe rp ident w = (Inr (Started c), w1)"
  shows "w1 = w\<lparr>docker := docker w @ [new_container pe ident (path_join [DATA_DIR (cwd pe), ident])
                 (case discover rp (fs w) (path_join [DATA_DIR (cwd pe), ident]) of Inr (Some ep) \<Rightarrow> ep | _ \<Rightarrow> []) c],
              heap := heap w @ [\<lparr>container = Some (new_container pe ident (path_join [DATA_DIR (cwd pe), ident])
                 (case discover rp (fs w) (path_join [DATA_DIR (cwd pe), ident]) of Inr (Some ep) \<Rightarrow> ep | _ \<Rightarrow> []) c),
                 logs = [], listeners = []\<rparr>],
              bots := (bots w)(ident \<mapsto> length (heap w)),
              streams := streams w @ [length (heap w)],
              waits := waits w @ [(length (heap w), ident)]\<rparr>"
    and "pathExists (fs w) (path_join [DATA_DIR (cwd pe), ident])"
    and "create_result rp = Inr c" "start_result rp = None" "logs_result rp = None"
  using assms
  by (auto simp: startBot_def create_and_run_def Let_def split: option.splits sum.splits prod.splits if_splits)

lemma startBot_AlreadyRunning:
  assumes "startBot pe rp ident w = (Inr (AlreadyRunning c), w1)"
  shows "w1 = w" "\<exists>r e k. bots_get w ident = Some (r, e) \<and> container e = Some k \<and> cid k = c"
    "pathExists (fs w) (path_join [DATA_DIR (cwd pe), ident])"
  using assms
  by (auto simp: startBot_def create_and_run_def Let_def split: option.splits sum.splits prod.splits if_splits)

lemma startBot_running:
  assumes "pathExists (fs w) (path_join [DATA_DIR (cwd pe), ident])"
    and "bots_get w ident = Some (r, e)" "container e = Some k"
  shows "startBot pe rp ident w = (Inr (AlreadyRunning (cid k)), w)"
  using assms by (simp add: startBot_def)

text \<open>
  C3. When a Start has created and registered a sandbox with container id \<open>c\<close>, a second
  Start of the same bundle, whatever the libraries and the daemon would answer, changes
  nothing and returns \<open>already running\<close> with the same id \<open>c\<close>: the two calls together
  have created exactly one container. The same holds when the first call already found
  the bundle running.
\<close>

theorem start_twice_one_sandbox:
  "(startBot pe rp1 ident w = (Inr (Started c), w1) \<longrightarrow>
      startBot pe rp2 ident w1 = (Inr (AlreadyRunning c), w1)
      \<and> map cid (docker w1) = map cid (docker w) @ [c])
   \<and> (startBot pe rp1 ident w = (Inr (AlreadyRunning c), w1) \<longrightarrow>
      startBot pe rp2 ident w1 = (Inr (AlreadyRunning c), w1) \<and> docker w1 = docker w)"
proof (intro conjI impI)
  assume a: "startBot pe rp1 ident w = (Inr (Started c), w1)"
  note s = startBot_Started[OF a]
  let ?k = "new_container pe ident (path_join [DATA_DIR (cwd pe), ident])
     (case discover rp1 (fs w) (path_join [DATA_DIR (cwd pe), ident]) of Inr (Some ep) \<Rightarrow> ep | _ \<Rightarrow> []) c"
  have "bots_get w1 ident = Some (length (heap w), \<lparr>container = Some ?k, logs = [], listeners = []\<rparr>)"
    by (subst s(1)) (simp add: bots_get_def)
  moreover have "pathExists (fs w1) (path_join [DATA_DIR (cwd pe), ident])"
    using s(2) by (subst s(1)) simp
  moreover have "cid ?k = c" by (simp add: new_container_def)
  ultimately show "startBot pe rp2 ident w1 = (Inr (AlreadyRunning c), w1)"
    using startBot_running[of w1 pe ident "length (heap w)" _ ?k rp2] by simp
  show "map cid (docker w1) = map cid (docker w) @ [c]"
    by (subst s(1)) (simp add: new_container_def)
next
  assume a: "startBot pe rp1 ident w = (Inr (AlreadyRunning c), w1)"
  note s = startBot_AlreadyRunning[OF a]
  from s show "startBot pe rp2 ident w1 = (Inr (AlreadyRunning c), w1)"
    using startBot_running[of w pe ident] by auto
  from s show "docker w1 = docker w" by simp
qed



theorem start_twice_one_sandbox_witness:
  "startBot pe_example rp_ok ''abc'' (init fs_example) = (Inr (Started ''c1''), w_started)
   \<and> startBot pe_example rp_start_fails ''abc'' w_started = (Inr (AlreadyRunning ''c1''), w_started)
   \<and> map cid (docker w_started) = map cid (docker (init fs_example)) @ [''c1'']
   \<and> startBot pe_example rp_ok ''abc'' w_started = (Inr (AlreadyRunning ''c1''), w_started)"
proof -
  have "fst (startBot pe_example rp_ok ''abc'' (init fs_example)) = Inr (Started ''c1'')"
    by code_simp
  then have first: "startBot pe_example rp_ok ''abc'' (init fs_example) = (Inr (Started ''c1''), w_started)"
    by (simp add: w_started_def prod_eq_iff)
  have second: "startBot pe_example rp_start_fails ''abc'' w_started = (Inr (AlreadyRunning ''c1''), w_started)"
    using first start_twice_one_sandbox[of pe_example rp_ok "''abc''" "init fs_example" "''c1''" w_started rp_start_fails]
    by blast
  show ?thesis
    using first second
      start_twice_one_sandbox[of pe_example rp_ok "''abc''" "init fs_example" "''c1''" w_started rp_start_fails]
      start_twice_one_sandbox[of pe_example rp_start_fails "''abc''" w_started "''c1''" w_started rp_ok]
    by blast
qed

lemma status_stopped_iff:
  "status w ident = (False, None) \<longleftrightarrow>
     (case bots_get w ident of None \<Rightarrow> None | Some (r, e) \<Rightarrow> container e) = None"
  by (auto simp: status_def split: option.splits prod.splits)

lemma startBot_stopped:
  assumes "pathExists (fs w) (path_join [DATA_DIR (cwd pe), ident])" "status w ident = (False, None)"
  shows "startBot pe rp ident w =
     (case discover rp (fs w) (path_join [DATA_DIR (cwd pe), ident]) of
        Inl e \<Rightarrow> (Inl e, w)
      | Inr None \<Rightarrow> (Inl no_entry_point, w)
      | Inr (Some ep) \<Rightarrow> create_and_run pe rp ident (path_join [DATA_DIR (cwd pe), ident]) ep w)"
  using assms by (simp add: startBot_def status_stopped_iff Let_def)

lemma bots_get_docker_update [simp]: "bots_get (w\<lparr>docker := d\<rparr>) ident = bots_get w ident"
  by (simp add: bots_get_def split: option.splits)

lemma status_docker_update [simp]: "status (w\<lparr>docker := d\<rparr>) ident = status w ident"
  by (simp add: status_def)

lemma status_stopBot: "status (stopBot so ident w) ident = (False, None)"
  by (auto simp: stopBot_def status_def bots_get_def Let_def split: option.splits prod.splits)

lemma fs_stopBot [simp]: "fs (stopBot so ident w) = fs w"
  by (auto simp: stopBot_def Let_def split: option.splits prod.splits)

lemma create_and_run_accepted:
  assumes "create_result rp = Inr n" "start_result rp = None" "logs_result rp = None"
  shows "fst (create_and_run pe rp ident dir ep w) = Inr (Started n)"
  using assms by (simp add: create_and_run_def Let_def)

lemma stopBot_noop: "status w ident = (False, None) \<Longrightarrow> stopBot so ident w = w"
  by (auto simp: stopBot_def status_def split: option.splits prod.splits)

text \<open>
  C6. Stop changes nothing when the bundle is Stopped (no registry entry, or one without a
  container). Otherwise it removes the registry entry whether \<open>container.stop\<close>
  succeeded or was rejected; a rejection is written to the console and goes no further.
  In every case the bundle is Stopped afterwards, and a Start that finds the directory, an
  entry point and a daemon that accepts is carried out and returns the new container id.
\<close>

theorem stopBot_converges:
  "(status w ident = (False, None) \<longrightarrow> stopBot so ident w = w)
   \<and> status (stopBot so ident w) ident = (False, None)
   \<and> (bots_get w ident = Some (r, e) \<and> container e = Some c \<longrightarrow>
        stopBot None ident w = w\<lparr>bots := (bots w)(ident := None)\<rparr>
        \<and> stopBot (Some err) ident w
            = w\<lparr>console := console w @ [(''stop err'', err)], bots := (bots w)(ident := None)\<rparr>)
   \<and> (pathExists (fs w) (path_join [DATA_DIR (cwd pe), ident])
        \<and> discover rp (fs w) (path_join [DATA_DIR (cwd pe), ident]) = Inr (Some ep)
        \<and> create_result rp = Inr n \<and> start_result rp = None \<and> logs_result rp = None \<longrightarrow>
        fst (startBot pe rp ident (stopBot so ident w)) = Inr (Started n))"
proof (intro conjI impI)
  show "stopBot so ident w = w" if "status w ident = (False, None)"
    using that by (auto simp: stopBot_def status_def split: option.splits prod.splits)
  show "status (stopBot so ident w) ident = (False, None)" by (rule status_stopBot)
  show "stopBot None ident w = w\<lparr>bots := (bots w)(ident := None)\<rparr>"
    if "bots_get w ident = Some (r, e) \<and> container e = Some c"
    using that by (simp add: stopBot_def)
  show "stopBot (Some err) ident w
            = w\<lparr>console := console w @ [(''stop err'', err)], bots := (bots w)(ident := None)\<rparr>"
    if "bots_get w ident = Some (r, e) \<and> container e = Some c"
    using that by (simp add: stopBot_def)
  show "fst (startBot pe rp ident (stopBot so ident w)) = Inr (Started n)"
    if h: "pathExists (fs w) (path_join [DATA_DIR (cwd pe), ident])
        \<and> discover rp (fs w) (path_join [DATA_DIR (cwd pe), ident]) = Inr (Some ep)
        \<and> create_result rp = Inr n \<and> start_result rp = None \<and> logs_result rp = None"
  proof -
    have "startBot pe rp ident (stopBot so ident w) =
        create_and_run pe rp ident (path_join [DATA_DIR (cwd pe), ident]) ep (stopBot so ident w)"
      using h startBot_stopped[of "stopBot so ident w" pe ident rp] status_stopBot[of so ident w]
      by simp
    then show ?thesis using h by (simp add: create_and_run_accepted)
  qed
qed

text \<open>
  C2 (as amended). Let Start reach the creation of the sandbox: the directory exists, the
  bundle is Stopped and an entry point was found.
  \<^item> When \<open>createContainer\<close> is rejected, the error reaches the caller and the world is
    unchanged.
  \<^item> When \<open>container.start\<close> is rejected, the error reaches the caller and the registry is
    unchanged, but the container that was created stays with the daemon.
  \<^item> In both cases the bundle is still Stopped, and a retry is carried out again from the
    beginning: with a daemon that accepts, it returns the new container id.
\<close>

theorem start_failure_outcomes:
  assumes "pathExists (fs w) (path_join [DATA_DIR (cwd pe), ident])"
    and "status w ident = (False, None)"
    and "discover rp (fs w) (path_join [DATA_DIR (cwd pe), ident]) = Inr (Some ep)"
  shows "(create_result rp = Inl e \<longrightarrow> startBot pe rp ident w = (Inl e, w))
     \<and> (create_result rp = Inr n \<and> start_result rp = Some e \<longrightarrow>
          startBot pe rp ident w
            = (Inl e, w\<lparr>docker := docker w @ [new_container pe ident (path_join [DATA_DIR (cwd pe), ident]) ep n]\<rparr>))
     \<and> ((create_result rp = Inl e \<or> create_result rp = Inr n \<and> start_result rp = Some e) \<longrightarrow>
          status (snd (startBot pe rp ident w)) ident = (False, None)
          \<and> bots (snd (startBot pe rp ident w)) = bots w
          \<and> (discover rp2 (fs w) (path_join [DATA_DIR (cwd pe), ident]) = Inr (Some ep2)
               \<and> create_result rp2 = Inr n2 \<and> start_result rp2 = None \<and> logs_result rp2 = None \<longrightarrow>
              fst (startBot pe rp2 ident (snd (startBot pe rp ident w))) = Inr (Started n2)))"
proof -
  let ?dir = "path_join [DATA_DIR (cwd pe), ident]"
  have run: "startBot pe rp ident w = create_and_run pe rp ident ?dir ep w"
    using assms by (simp add: startBot_stopped)
  have c1: "startBot pe rp ident w = (Inl e, w)" if "create_result rp = Inl e"
    using that by (simp add: run create_and_run_def)
  have c2: "startBot pe rp ident w = (Inl e, w\<lparr>docker := docker w @ [new_container pe ident ?dir ep n]\<rparr>)"
    if "create_result rp = Inr n \<and> start_result rp = Some e"
    using that by (simp add: run create_and_run_def Let_def)
  have c3: "status (snd (startBot pe rp ident w)) ident = (False, None)
          \<and> bots (snd (startBot pe rp ident w)) = bots w
          \<and> (discover rp2 (fs w) ?dir = Inr (Some ep2)
               \<and> create_result rp2 = Inr n2 \<and> start_result rp2 = None \<and> logs_result rp2 = None \<longrightarrow>
              fst (startBot pe rp2 ident (snd (startBot pe rp ident w))) = Inr (Started n2))"
    if f: "create_result rp = Inl e \<or> create_result rp = Inr n \<and> start_result rp = Some e"
  proof -
    let ?w' = "snd (startBot pe rp ident w)"
    have w': "?w' = w \<or> ?w' = w\<lparr>docker := docker w @ [new_container pe ident ?dir ep n]\<rparr>"
      using f c1 c2 by auto
    have st: "status ?w' ident = (False, None)"
    proof -
      from w' show ?thesis
      proof
        assume "?w' = w" then show ?thesis using assms(2) by simp
      next
        assume a: "?w' = w\<lparr>docker := docker w @ [new_container pe ident ?dir ep n]\<rparr>"
        show ?thesis by (subst a) (simp add: assms(2))
      qed
    qed
    have b: "bots ?w' = bots w" using w' by auto
    have ex: "pathExists (fs ?w') ?dir" using assms(1) by simp
    have "fst (startBot pe rp2 ident ?w') = Inr (Started n2)"
      if h: "discover rp2 (fs w) ?dir = Inr (Some ep2)
               \<and> create_result rp2 = Inr n2 \<and> start_result rp2 = None \<and> logs_result rp2 = None"
    proof -
      have "startBot pe rp2 ident ?w' = create_and_run pe rp2 ident ?dir ep2 ?w'"
        using startBot_stopped[OF ex st, of rp2] h by simp
      then show ?thesis using h by (simp add: create_and_run_accepted)
    qed
    then show ?thesis using st b by blast
  qed
  show ?thesis using c1 c2 c3 by blast
qed

lemma dir_abc: "path_join [DATA_DIR (cwd pe_example), ''abc''] = ''/srv/app/data/bots/abc''"
  by code_simp

lemma exists_abc: "pathExists fs_example ''/srv/app/data/bots/abc''"
  by code_simp

lemma discover_abc: "discover rp fs_example ''/srv/app/data/bots/abc'' = Inr (Some ''/bot/index.js'')"
  by code_simp

lemma start_abc: "startBot pe_example rp_ok ''abc'' (init fs_example) = (Inr (Started ''c1''), w_started)"
proof -
  have "fst (startBot pe_example rp_ok ''abc'' (init fs_example)) = Inr (Started ''c1'')"
    by code_simp
  then show ?thesis by (simp add: w_started_def prod_eq_iff)
qed

lemma w_started_eq:
  "w_started = (init fs_example)\<lparr>docker := [c_started],
       heap := [\<lparr>container = Some c_started, logs = [], listeners = []\<rparr>],
       bots := (\<lambda>x. None)(''abc'' \<mapsto> 0), streams := [0], waits := [(0, ''abc'')]\<rparr>"
  using startBot_Started(1)[OF start_abc]
  by (simp add: dir_abc discover_abc init_def c_started_def)

lemma bots_get_started:
  "bots_get w_started ''abc'' = Some (0, \<lparr>container = Some c_started, logs = [], listeners = []\<rparr>)"
  by (simp add: w_started_eq bots_get_def init_def)

lemma fs_started: "fs w_started = fs_example"
  by (simp add: w_started_eq init_def)

theorem stopBot_converges_witness:
  "status (init fs_example) ''abc'' = (False, None)
   \<and> stopBot None ''abc'' (init fs_example) = init fs_example
   \<and> status (stopBot (Some (Rejected ''timeout'')) ''abc'' w_started) ''abc'' = (False, None)
   \<and> bots_get w_started ''abc'' = Some (0, \<lparr>container = Some c_started, logs = [], listeners = []\<rparr>)
   \<and> stopBot (Some (Rejected ''timeout'')) ''abc'' w_started
        = w_started\<lparr>console := console w_started @ [(''stop err'', Rejected ''timeout'')],
                    bots := (bots w_started)(''abc'' := None)\<rparr>
   \<and> pathExists (fs w_started) (path_join [DATA_DIR (cwd pe_example), ''abc''])
   \<and> fst (startBot pe_example rp_ok ''abc'' (stopBot (Some (Rejected ''timeout'')) ''abc'' w_started))
        = Inr (Started ''c1'')"
proof -
  have st: "status (init fs_example) ''abc'' = (False, None)"
    by (simp add: status_def bots_get_def init_def)
  have ex: "pathExists (fs w_started) (path_join [DATA_DIR (cwd pe_example), ''abc''])"
    by (simp add: fs_started dir_abc exists_abc)
  have di: "discover rp_ok (fs w_started) (path_join [DATA_DIR (cwd pe_example), ''abc''])
              = Inr (Some ''/bot/index.js'')"
    by (simp add: fs_started dir_abc discover_abc)
  have rp: "create_result rp_ok = Inr ''c1''" "start_result rp_ok = None" "logs_result rp_ok = None"
    by (simp_all add: rp_ok_def)
  have ce: "container \<lparr>container = Some c_started, logs = [], listeners = []\<rparr> = Some c_started"
    by simp
  note a = stopBot_converges[of "init fs_example" "''abc''" None]
  note b = stopBot_converges[of w_started "''abc''" "Some (Rejected ''timeout'')" 0
        "\<lparr>container = Some c_started, logs = [], listeners = []\<rparr>" c_started "Rejected ''timeout''"
        pe_example rp_ok "''/bot/index.js''" "''c1''"]
  have 1: "stopBot None ''abc'' (init fs_example) = init fs_example" using a st by blast
  have 2: "status (stopBot (Some (Rejected ''timeout'')) ''abc'' w_started) ''abc'' = (False, None)"
    using b by blast
  have 3: "stopBot (Some (Rejected ''timeout'')) ''abc'' w_started
        = w_started\<lparr>console := console w_started @ [(''stop err'', Rejected ''timeout'')],
                    bots := (bots w_started)(''abc'' := None)\<rparr>"
    using b bots_get_started ce by blast
  have 4: "fst (startBot pe_example rp_ok ''abc'' (stopBot (Some (Rejected ''timeout'')) ''abc'' w_started))
        = Inr (Started ''c1'')"
    using b ex di rp by blast
  show ?thesis using st 1 2 3 4 ex bots_get_started by blast
qed

text \<open>
  C2 as stated fails where it promises the release of what was created: after a rejected
  \<open>container.start\<close> the container \<open>c2\<close> made by \<open>createContainer\<close> is still there.
\<close>

theorem created_container_not_released:
  "fst (startBot pe_example rp_start_fails ''abc'' (init fs_example)) = Inl (Rejected ''start failed'')
   \<and> map cid (docker (snd (startBot pe_example rp_start_fails ''abc'' (init fs_example)))) = [''c2'']"
  by code_simp

theorem start_failure_outcomes_witness:
  "pathExists (fs (init fs_example)) (path_join [DATA_DIR (cwd pe_example), ''abc''])
   \<and> status (init fs_example) ''abc'' = (False, None)
   \<and> startBot pe_example rp_create_fails ''abc'' (init fs_example)
        = (Inl (Rejected ''no such image''), init fs_example)
   \<and> startBot pe_example rp_start_fails ''abc'' (init fs_example)
        = (Inl (Rejected ''start failed''),
           (init fs_example)\<lparr>docker := docker (init fs_example) @
              [new_container pe_example ''abc'' (path_join [DATA_DIR (cwd pe_example), ''abc''])
                 ''/bot/index.js'' ''c2'']\<rparr>)
   \<and> status (snd (startBot pe_example rp_start_fails ''abc'' (init fs_example))) ''abc'' = (False, None)
   \<and> fst (startBot pe_example rp_ok ''abc''
            (snd (startBot pe_example rp_start_fails ''abc'' (init fs_example)))) = Inr (Started ''c1'')"
proof -
  have st: "status (init fs_example) ''abc'' = (False, None)"
    by (simp add: status_def bots_get_def init_def)
  have ex: "pathExists (fs (init fs_example)) (path_join [DATA_DIR (cwd pe_example), ''abc''])"
    by (simp add: init_def dir_abc exists_abc)
  have di: "discover rp (fs (init fs_example)) (path_join [DATA_DIR (cwd pe_example), ''abc''])
              = Inr (Some ''/bot/index.js'')" for rp
    by (simp add: init_def dir_abc discover_abc)
  have rp: "create_result rp_ok = Inr ''c1''" "start_result rp_ok = None" "logs_result rp_ok = None"
    "create_result rp_create_fails = Inl (Rejected ''no such image'')"
    "create_result rp_start_fails = Inr ''c2''" "start_result rp_start_fails = Some (Rejected ''start failed'')"
    by (simp_all add: rp_ok_def rp_create_fails_def rp_start_fails_def)
  note a = start_failure_outcomes[OF ex st di, of rp_create_fails "Rejected ''no such image''" "''c2''" rp_ok "''c1''"]
  note b = start_failure_outcomes[OF ex st di, of rp_start_fails "Rejected ''start failed''" "''c2''" rp_ok "''/bot/index.js''" "''c1''"]
  have 1: "startBot pe_example rp_create_fails ''abc'' (init fs_example)
        = (Inl (Rejected ''no such image''), init fs_example)"
    using a rp by blast
  have 2: "startBot pe_example rp_start_fails ''abc'' (init fs_example)
        = (Inl (Rejected ''start failed''),
           (init fs_example)\<lparr>docker := docker (init fs_example) @
              [new_container pe_example ''abc'' (path_join [DATA_DIR (cwd pe_example), ''abc''])
                 ''/bot/index.js'' ''c2'']\<rparr>)"
    using b rp by blast
  have 3: "status (snd (startBot pe_example rp_start_fails ''abc'' (init fs_example))) ''abc'' = (False, None)"
    using b rp by blast
  have 4: "fst (startBot pe_example rp_ok ''abc''
            (snd (startBot pe_example rp_start_fails ''abc'' (init fs_example)))) = Inr (Started ''c1'')"
    using b rp di[of rp_ok] by blast
  show ?thesis using st ex 1 2 3 4 by blast
qed











section \<open>Well-formed worlds\<close>

lemma bots_get_Some:
  "bots_get w i = Some (r, e) \<longleftrightarrow> bots w i = Some r \<and> r < length (heap w) \<and> e = heap w ! r"
  by (auto simp: bots_get_def split: option.splits)

lemma wf_init: "wf_world (init f)"
  by (simp add: wf_world_def init_def)

lemma wf_create_and_run:
  "wf_world w \<Longrightarrow> wf_world (snd (create_and_run pe rp ident dir ep w))"
  by (auto simp: create_and_run_def Let_def wf_world_def less_Suc_eq nth_append split: sum.splits option.splits)

lemma wf_startBot: "wf_world w \<Longrightarrow> wf_world (snd (startBot pe rp ident w))"
  by (auto simp: startBot_def Let_def wf_create_and_run split: sum.splits option.splits prod.splits)

lemma wf_stopBot: "wf_world w \<Longrightarrow> wf_world (stopBot so ident w)"
  by (auto simp: stopBot_def Let_def wf_world_def split: option.splits prod.splits)

lemma wf_on_data: "wf_world w \<Longrightarrow> wf_world (on_data r ts chunk w)"
  by (auto simp: on_data_def Let_def wf_world_def deliver_def nth_list_update)

lemma wf_on_exit: "wf_world w \<Longrightarrow> wf_world (on_exit r ident ts res w)"
  by (auto simp: on_exit_def Let_def wf_world_def deliver_def nth_list_update)

lemma wf_ws_connection: "wf_world w \<Longrightarrow> wf_world (ws_connection b w)"
  by (auto simp: ws_connection_def Let_def wf_world_def set_add_def bots_get_Some less_Suc_eq
      nth_list_update split: option.splits prod.splits)

lemma wf_ws_close: "wf_world w \<Longrightarrow> wf_world (ws_close k w)"
  by (auto simp: ws_close_def Let_def wf_world_def set_delete_def nth_list_update
      split: option.splits)


lemma wf_fs_update: "wf_world w \<Longrightarrow> wf_world (w\<lparr>fs := f\<rparr>)"
  by (simp add: wf_world_def)

lemma wf_waits_filter: "wf_world w \<Longrightarrow> wf_world (w\<lparr>waits := filter P (waits w)\<rparr>)"
  by (auto simp: wf_world_def distinct_map_filter)

lemma wf_step: "wf_world w \<Longrightarrow> wf_world (step pe w ev)"
  by (cases ev)
     (auto simp: wf_startBot wf_stopBot wf_on_data wf_on_exit wf_ws_connection wf_ws_close
        wf_fs_update wf_waits_filter post_restart_def delete_bot_def Let_def split: option.splits)

lemma run_Nil [simp]: "run pe [] w = w"
  by (simp add: run_def)

lemma run_Cons [simp]: "run pe (ev # evs) w = run pe evs (step pe w ev)"
  by (simp add: run_def)

lemma run_append: "run pe (xs @ ys) w = run pe ys (run pe xs w)"
  by (simp add: run_def)

lemma wf_run: "wf_world w \<Longrightarrow> wf_world (run pe evs w)"
  by (induction evs arbitrary: w) (simp_all add: wf_step)

lemma wf_reachable: "wf_world (run pe evs (init f))"
  by (rule wf_run) (rule wf_init)

section \<open>The log buffer\<close>

lemma slice_last_push:
  "(if length (slice_last 2000 A @ [l]) > 2000 then tl (slice_last 2000 A @ [l]) else slice_last 2000 A @ [l])
     = slice_last 2000 (A @ [l])"
proof (cases "length A < 2000")
  case True
  then show ?thesis by (simp add: slice_last_def)
next
  case False
  define n where "n = length A - 2000"
  have len: "length (drop n A) = 2000" using False by (simp add: n_def)
  then have ne: "drop n A \<noteq> []" by auto
  have "tl (drop n A @ [l]) = tl (drop n A) @ [l]" using ne by simp
  also have "tl (drop n A) = drop (Suc n) A" by (simp add: drop_Suc tl_drop)
  finally have tl: "tl (drop n A @ [l]) = drop (Suc n) A @ [l]" .
  have idx: "Suc (length A) - 2000 = Suc n" using False by (simp add: n_def)
  have "slice_last 2000 A = drop n A" by (simp add: slice_last_def n_def)
  moreover have "slice_last 2000 (A @ [l]) = drop (Suc n) A @ [l]"
  proof -
    have "length (A @ [l]) - 2000 = Suc n" using idx by simp
    moreover have "Suc n \<le> length A" using False by (simp add: n_def)
    ultimately show ?thesis unfolding slice_last_def by simp
  qed
  ultimately show ?thesis using len tl by simp
qed

lemma slice_last_slice_last: "n \<le> m \<Longrightarrow> slice_last n (slice_last m xs) = slice_last n xs"
proof -
  assume "n \<le> m"
  then have "length xs - (length xs - m + n) + (length xs - m) = length xs - n" by arith
  then show ?thesis by (simp add: slice_last_def)
qed

lemma length_slice_last: "length (slice_last n xs) = min (length xs) n"
  by (simp add: slice_last_def)

lemma on_data_frame [simp]:
  "length (heap (on_data r ts chunk w)) = length (heap w)"
  "streams (on_data r ts chunk w) = streams w"
  "waits (on_data r ts chunk w) = waits w"
  "bots (on_data r ts chunk w) = bots w"
  by (simp_all add: on_data_def Let_def)

lemma on_data_logs:
  assumes "r < length (heap w)" "length (logs (heap w ! r)) \<le> 2000"
  shows "logs (heap (on_data r ts chunk w) ! r) = slice_last 2000 (logs (heap w ! r) @ [stamp ts chunk])"
    and "length (logs (heap (on_data r ts chunk w) ! r)) \<le> 2000"
proof -
  have sl: "slice_last 2000 (logs (heap w ! r)) = logs (heap w ! r)"
    using assms(2) by (simp add: slice_last_def)
  show "logs (heap (on_data r ts chunk w) ! r) = slice_last 2000 (logs (heap w ! r) @ [stamp ts chunk])"
    using assms(1) slice_last_push[of "logs (heap w ! r)" "stamp ts chunk", unfolded sl]
    by (simp add: on_data_def Let_def)
  then show "length (logs (heap (on_data r ts chunk w) ! r)) \<le> 2000"
    by (simp add: length_slice_last)
qed

lemma feed_Nil [simp]: "feed r [] w = w"
  by (simp add: feed_def)

lemma feed_Cons [simp]: "feed r ((ts, chunk) # cs) w = feed r cs (on_data r ts chunk w)"
  by (simp add: feed_def)

lemma drop_append_le: "k \<le> length as \<Longrightarrow> drop k as @ bs = drop k (as @ bs)"
  by simp

lemma slice_last_drop:
  assumes "k \<le> length zs" "k = 0 \<or> n \<le> length zs - k"
  shows "slice_last n (drop k zs) = slice_last n zs"
proof -
  have "length zs - k - n + k = length zs - n" using assms by arith
  then show ?thesis by (simp add: slice_last_def)
qed

lemma slice_last_append_left:
  "slice_last n (slice_last n (xs @ [y]) @ ys) = slice_last n (xs @ y # ys)"
proof -
  define k where "k = length (xs @ [y]) - n"
  define zs where "zs = (xs @ [y]) @ ys"
  have "k \<le> length (xs @ [y])" by (simp add: k_def)
  then have "drop k (xs @ [y]) @ ys = drop k zs" unfolding zs_def by (rule drop_append_le)
  then have 1: "slice_last n (xs @ [y]) @ ys = drop k zs"
    unfolding slice_last_def k_def[symmetric] .
  have "k \<le> length zs" "k = 0 \<or> n \<le> length zs - k"
    unfolding k_def zs_def by (simp_all del: append_assoc) arith
  then have "slice_last n (drop k zs) = slice_last n zs" by (rule slice_last_drop)
  then show ?thesis unfolding 1 by (simp add: zs_def)
qed

text \<open>The \<open>data\<close> handler alone keeps the buffer within its capacity and evicts the oldest
  lines first: after any chunks, the buffer holds the last 2000 of the lines it held before
  followed by the new ones, in order.\<close>

lemma data_appends_bounded_fifo:
  assumes "r < length (heap w)" "length (logs (heap w ! r)) \<le> 2000"
  shows "logs (heap (feed r chunks w) ! r) = slice_last 2000 (logs (heap w ! r) @ stamped chunks)
     \<and> length (logs (heap (feed r chunks w) ! r)) \<le> 2000
     \<and> length (heap (feed r chunks w)) = length (heap w)
     \<and> streams (feed r chunks w) = streams w \<and> waits (feed r chunks w) = waits w"
  using assms
proof (induction chunks arbitrary: w)
  case Nil
  then show ?case by (simp add: stamped_def slice_last_def)
next
  case (Cons c chunks)
  obtain ts chunk where c: "c = (ts, chunk)" by (cases c)
  note d = on_data_logs[OF Cons.prems, of ts chunk]
  have "r < length (heap (on_data r ts chunk w))" using Cons.prems(1) by simp
  from Cons.IH[OF this d(2)] show ?case
    using d(1) Cons.prems(2)
    by (simp add: c stamped_def slice_last_append_left length_slice_last)
qed

lemma run_replicate_data:
  "r \<in> set (streams w) \<Longrightarrow>
     run pe (replicate n (Data r ts chunk)) w = feed r (replicate n (ts, chunk)) w"
  by (induction n arbitrary: w) simp_all

text \<open>
  C4 fails on the exit line. The \<open>data\<close> handler evicts, the exit observer pushes without
  looking at the length: a sandbox that wrote 2000 chunks and then exited leaves 2001
  lines in its buffer.
\<close>

theorem exit_line_exceeds_capacity:
  "length (logs (heap (run pe_example
       (replicate 2000 (Data 0 ''t'' ''x'') @ [Exit 0 ''t'' ''{}'']) w_started) ! 0)) = 2001"
proof -
  let ?w = "feed 0 (replicate 2000 (''t'', ''x'')) w_started"
  have st: "0 \<in> set (streams w_started)" "0 < length (heap w_started)"
    "length (logs (heap w_started ! 0)) \<le> 2000" "logs (heap w_started ! 0) = []"
    "map_of (waits w_started) 0 = Some ''abc''"
    by (simp_all add: w_started_eq)
  note f = data_appends_bounded_fifo[OF st(2,3), of "replicate 2000 (''t'', ''x'')"]
  have len: "length (logs (heap ?w ! 0)) = 2000"
    using f by (simp add: st(4) length_slice_last stamped_def)
  have "run pe_example (replicate 2000 (Data 0 ''t'' ''x'') @ [Exit 0 ''t'' ''{}'']) w_started
      = on_exit 0 ''abc'' ''t'' ''{}'' (?w\<lparr>waits := filter (\<lambda>p. fst p \<noteq> 0) (waits ?w)\<rparr>)"
    using f st(5) by (simp add: run_append run_replicate_data[OF st(1)])
  then show ?thesis using f len st(2) by (simp add: on_exit_def Let_def)
qed

section \<open>Subscribers that hear nothing\<close>

lemma startBot_frame:
  "sent (snd (startBot pe rp ident w)) = sent w"
  "conns (snd (startBot pe rp ident w)) = conns w"
  "heap (snd (startBot pe rp ident w)) = heap w
   \<or> (\<exists>c. heap (snd (startBot pe rp ident w)) = heap w @ [\<lparr>container = Some c, logs = [], listeners = []\<rparr>])"
  by (auto simp: startBot_def create_and_run_def Let_def split: sum.splits option.splits prod.splits)

lemma stopBot_frame [simp]:
  "sent (stopBot so ident w) = sent w"
  "conns (stopBot so ident w) = conns w"
  "heap (stopBot so ident w) = heap w"
  "streams (stopBot so ident w) = streams w"
  "waits (stopBot so ident w) = waits w"
  "docker (stopBot so ident w) = docker w"
  by (auto simp: stopBot_def Let_def split: option.splits prod.splits)

lemma filter_deliver:
  "distinct ls \<Longrightarrow>
     filter (\<lambda>m. fst m = k) (deliver ls msg) = (if k \<in> set ls then [(k, Log msg)] else [])"
  by (induction ls) (auto simp: deliver_def)

lemma deaf_startBot: "deaf k w \<Longrightarrow> deaf k (snd (startBot pe rp ident w))"
  using startBot_frame(3)[of pe rp ident w]
  by (auto simp: deaf_def nth_append less_Suc_eq)

lemma inbox_startBot [simp]: "inbox k (snd (startBot pe rp ident w)) = inbox k w"
  by (simp add: inbox_def startBot_frame)

lemma inbox_stopBot [simp]: "inbox k (stopBot so ident w) = inbox k w"
  by (simp add: inbox_def)

lemma deaf_stopBot [simp]: "deaf k (stopBot so ident w) = deaf k w"
  by (simp add: deaf_def)

lemma deaf_on_data:
  "deaf k w \<Longrightarrow> deaf k (on_data r ts chunk w) \<and> inbox k (on_data r ts chunk w) = inbox k w"
  by (auto simp: on_data_def Let_def deaf_def nth_list_update inbox_def deliver_def filter_empty_conv)

lemma deaf_on_exit:
  "deaf k w \<Longrightarrow> deaf k (on_exit r ident ts res w) \<and> inbox k (on_exit r ident ts res w) = inbox k w"
  by (auto simp: on_exit_def Let_def deaf_def nth_list_update inbox_def deliver_def filter_empty_conv)

lemma deaf_ws_connection:
  "k < length (conns w) \<Longrightarrow> deaf k w \<Longrightarrow>
     deaf k (ws_connection b w) \<and> inbox k (ws_connection b w) = inbox k w"
  by (auto simp: ws_connection_def Let_def deaf_def nth_list_update inbox_def set_add_def bots_get_Some
      split: option.splits prod.splits)

lemma deaf_ws_close:
  "deaf k w \<Longrightarrow> deaf k (ws_close j w) \<and> inbox k (ws_close j w) = inbox k w"
  by (auto simp: ws_close_def Let_def deaf_def nth_list_update inbox_def set_delete_def
      split: option.splits)

lemma conns_grow: "length (conns w) \<le> length (conns (step pe w ev))"
  by (cases ev)
     (auto simp: startBot_frame post_restart_def delete_bot_def on_data_def on_exit_def
        ws_connection_def ws_close_def Let_def split: option.splits prod.splits)

lemma deaf_fs [simp]: "deaf k (w\<lparr>fs := f\<rparr>) = deaf k w"
  by (simp add: deaf_def)

lemma inbox_fs [simp]: "inbox k (w\<lparr>fs := f\<rparr>) = inbox k w"
  by (simp add: inbox_def)

lemma deaf_step:
  assumes "k < length (conns w)" "deaf k w"
  shows "deaf k (step pe w ev) \<and> inbox k (step pe w ev) = inbox k w"
proof (cases ev)
  case (Start rp ident)
  then show ?thesis using assms by (simp add: deaf_startBot)
next
  case (Stop so ident)
  then show ?thesis using assms by simp
next
  case (Restart so rp ident)
  then show ?thesis using assms by (simp add: post_restart_def deaf_startBot)
next
  case (Delete so ident)
  then show ?thesis using assms by (simp add: delete_bot_def Let_def)
next
  case (PutFile ident rel body)
  then show ?thesis using assms by simp
next
  case (Filesystem f')
  then show ?thesis using assms by simp
next
  case (Data r ts chunk)
  then show ?thesis using assms deaf_on_data[of k w r ts chunk] by simp
next
  case (Exit r ts res)
  show ?thesis
  proof (cases "map_of (waits w) r")
    case None
    then show ?thesis using assms Exit by simp
  next
    case (Some ident)
    have "deaf k (w\<lparr>waits := filter (\<lambda>p. fst p \<noteq> r) (waits w)\<rparr>)"
      using assms(2) by (simp add: deaf_def)
    from deaf_on_exit[OF this, of r ident ts res] show ?thesis
      using Exit Some by (simp add: inbox_def on_exit_def Let_def)
  qed
next
  case (Connect b)
  then show ?thesis using assms deaf_ws_connection[of k w b] by simp
next
  case (Close j)
  then show ?thesis using assms deaf_ws_close[of k w j] by simp
qed

lemma deaf_run:
  assumes "k < length (conns w)" "deaf k w"
  shows "inbox k (run pe evs w) = inbox k w"
  using assms
proof (induction evs arbitrary: w)
  case Nil
  then show ?case by simp
next
  case (Cons ev evs)
  have "k < length (conns (step pe w ev))"
    using Cons.prems(1) conns_grow[of w pe ev] by simp
  moreover have "deaf k (step pe w ev)" "inbox k (step pe w ev) = inbox k w"
    using deaf_step[OF Cons.prems, of pe ev] by simp_all
  ultimately show ?case using Cons.IH[of "step pe w ev"] by simp
qed

text \<open>
  C10. In any world the server can reach, a subscriber that connects for a bundle without
  registry entry (never started, stopped, or exited) is sent no history and becomes the
  listener of no entry; whatever happens afterwards, a new Start of the bundle included,
  nothing is ever sent to it.
\<close>

theorem late_subscriber_hears_nothing:
  assumes "w = run pe evs0 (init f)" "bots w b = None" "b \<noteq> []"
  shows "sent (ws_connection (Some b) w) = sent w
     \<and> heap (ws_connection (Some b) w) = heap w
     \<and> inbox (length (conns w)) (run pe evs (ws_connection (Some b) w)) = []"
proof -
  let ?k = "length (conns w)"
  let ?w' = "ws_connection (Some b) w"
  have wf: "wf_world w" unfolding assms(1) by (rule wf_reachable)
  have w': "?w' = w\<lparr>conns := conns w @ [None]\<rparr>"
    using assms(2,3) by (simp add: ws_connection_def bots_get_def Let_def)
  have "deaf ?k ?w'"
    using wf by (subst w') (auto simp: deaf_def wf_world_def)
  moreover have "?k < length (conns ?w')" by (subst w') simp
  ultimately have "inbox ?k (run pe evs ?w') = inbox ?k ?w'" by (rule deaf_run[rotated])
  moreover have "inbox ?k ?w' = []"
    using wf by (subst w') (auto simp: inbox_def wf_world_def filter_empty_conv)
  ultimately show ?thesis by (simp add: w')
qed

theorem late_subscriber_hears_nothing_witness:
  "bots w_exited ''abc'' = None
   \<and> sent (ws_connection (Some ''abc'') w_exited) = sent w_exited
   \<and> heap (ws_connection (Some ''abc'') w_exited) = heap w_exited
   \<and> logs (heap (run pe_example [Start rp_ok ''abc'', Data 1 ''t1'' ''again'']
                   (ws_connection (Some ''abc'') w_exited)) ! 1) = [''[t1] again'']
   \<and> inbox (length (conns w_exited))
         (run pe_example [Start rp_ok ''abc'', Data 1 ''t1'' ''again'']
            (ws_connection (Some ''abc'') w_exited)) = []"
proof -
  have h1: "w_exited = run pe_example [Start rp_ok ''abc'', Exit 0 ''t0'' ''{}''] (init fs_example)"
    by (simp add: w_exited_def)
  have h2: "bots w_exited ''abc'' = None"
  proof -
    have "map_of (waits w_started) 0 = Some ''abc''" by (simp add: w_started_eq)
    then show ?thesis by (simp add: w_exited_def start_abc on_exit_def Let_def)
  qed
  have h3: "''abc'' \<noteq> []" by simp
  have l: "logs (heap (run pe_example [Start rp_ok ''abc'', Data 1 ''t1'' ''again'']
                   (ws_connection (Some ''abc'') w_exited)) ! 1) = [''[t1] again'']"
    by code_simp
  show ?thesis
    using h2 l late_subscriber_hears_nothing[OF h1 h2 h3,
        of "[Start rp_ok ''abc'', Data 1 ''t1'' ''again'']"]
    by blast
qed

section \<open>Replay and live delivery\<close>

lemma map_of_filter_other:
  "r' \<noteq> r \<Longrightarrow> map_of (filter (\<lambda>p. fst p \<noteq> r') ws) r = map_of ws r"
  by (induction ws) auto

lemma map_of_filter_same: "map_of (filter (\<lambda>p. fst p \<noteq> r) ws) r = None"
  by (induction ws) auto

lemma create_and_run_shape:
  "snd (create_and_run pe rp i dir ep w) = w
   \<or> (\<exists>c. snd (create_and_run pe rp i dir ep w) = w\<lparr>docker := docker w @ [c]\<rparr>)
   \<or> (\<exists>c. snd (create_and_run pe rp i dir ep w) =
         w\<lparr>docker := docker w @ [c],
           heap := heap w @ [\<lparr>container = Some c, logs = [], listeners = []\<rparr>],
           bots := (bots w)(i \<mapsto> length (heap w))\<rparr>)
   \<or> (\<exists>c. snd (create_and_run pe rp i dir ep w) =
         w\<lparr>docker := docker w @ [c],
           heap := heap w @ [\<lparr>container = Some c, logs = [], listeners = []\<rparr>],
           bots := (bots w)(i \<mapsto> length (heap w)),
           streams := streams w @ [length (heap w)],
           waits := waits w @ [(length (heap w), i)]\<rparr>)"
proof (cases "create_result rp")
  case (Inl e)
  then show ?thesis by (simp add: create_and_run_def)
next
  case (Inr n)
  show ?thesis
  proof (cases "start_result rp")
    case (Some e)
    then have "snd (create_and_run pe rp i dir ep w) = w\<lparr>docker := docker w @ [new_container pe i dir ep n]\<rparr>"
      using Inr by (simp add: create_and_run_def Let_def)
    then show ?thesis by blast
  next
    case None
    show ?thesis
    proof (cases "logs_result rp")
      case (Some e)
      then have "snd (create_and_run pe rp i dir ep w) =
         w\<lparr>docker := docker w @ [new_container pe i dir ep n],
           heap := heap w @ [\<lparr>container = Some (new_container pe i dir ep n), logs = [], listeners = []\<rparr>],
           bots := (bots w)(i \<mapsto> length (heap w))\<rparr>"
        using Inr None by (simp add: create_and_run_def Let_def)
      then show ?thesis by blast
    next
      case lnone: None
      then have "snd (create_and_run pe rp i dir ep w) =
         w\<lparr>docker := docker w @ [new_container pe i dir ep n],
           heap := heap w @ [\<lparr>container = Some (new_container pe i dir ep n), logs = [], listeners = []\<rparr>],
           bots := (bots w)(i \<mapsto> length (heap w)),
           streams := streams w @ [length (heap w)],
           waits := waits w @ [(length (heap w), i)]\<rparr>"
        using Inr None by (simp add: create_and_run_def Let_def)
      then show ?thesis by blast
    qed
  qed
qed

lemma startBot_shape:
  "snd (startBot pe rp i w) = w
   \<or> (\<exists>c. snd (startBot pe rp i w) = w\<lparr>docker := docker w @ [c]\<rparr>)
   \<or> (\<exists>c. snd (startBot pe rp i w) =
         w\<lparr>docker := docker w @ [c],
           heap := heap w @ [\<lparr>container = Some c, logs = [], listeners = []\<rparr>],
           bots := (bots w)(i \<mapsto> length (heap w))\<rparr>)
   \<or> (\<exists>c. snd (startBot pe rp i w) =
         w\<lparr>docker := docker w @ [c],
           heap := heap w @ [\<lparr>container = Some c, logs = [], listeners = []\<rparr>],
           bots := (bots w)(i \<mapsto> length (heap w)),
           streams := streams w @ [length (heap w)],
           waits := waits w @ [(length (heap w), i)]\<rparr>)"
proof -
  have "snd (startBot pe rp i w) = w
      \<or> (\<exists>ep. snd (startBot pe rp i w) = snd (create_and_run pe rp i (path_join [DATA_DIR (cwd pe), i]) ep w))"
    by (auto simp: startBot_def Let_def split: sum.splits option.splits prod.splits)
  then show ?thesis using create_and_run_shape[of pe rp i "path_join [DATA_DIR (cwd pe), i]" _ w]
    by (elim disjE exE) simp_all
qed

lemma serving_docker [simp]: "serving r ident A (w\<lparr>docker := d\<rparr>) = serving r ident A w"
  by (simp add: serving_def)

lemma serving_registered:
  assumes "wf_world w" "serving r ident A w"
  shows "serving r ident A (w\<lparr>heap := heap w @ [e], bots := (bots w)(i \<mapsto> length (heap w))\<rparr>)"
  using assms by (auto simp: serving_def wf_world_def nth_append)

lemma serving_attached:
  assumes "wf_world w" "serving r ident A w"
  shows "serving r ident A (w\<lparr>heap := heap w @ [e], bots := (bots w)(i \<mapsto> length (heap w)),
           streams := streams w @ [length (heap w)], waits := waits w @ [(length (heap w), i)]\<rparr>)"
  using assms by (auto simp: serving_def wf_world_def nth_append map_add_def)

lemma serving_startBot:
  assumes "wf_world w" "serving r ident A w"
  shows "serving r ident A (snd (startBot pe rp i w))"
  using startBot_shape[of pe rp i w]
proof (elim disjE exE)
  fix c
  assume a: "snd (startBot pe rp i w) =
         w\<lparr>docker := docker w @ [c],
           heap := heap w @ [\<lparr>container = Some c, logs = [], listeners = []\<rparr>],
           bots := (bots w)(i \<mapsto> length (heap w))\<rparr>"
  have wf': "wf_world (w\<lparr>docker := docker w @ [c]\<rparr>)" using assms(1) by (simp add: wf_world_def)
  have s: "serving r ident A (w\<lparr>docker := docker w @ [c]\<rparr>)" using assms(2) by simp
  show ?thesis by (subst a) (use serving_registered[OF wf' s] in simp)
next
  fix c
  assume a: "snd (startBot pe rp i w) =
         w\<lparr>docker := docker w @ [c],
           heap := heap w @ [\<lparr>container = Some c, logs = [], listeners = []\<rparr>],
           bots := (bots w)(i \<mapsto> length (heap w)),
           streams := streams w @ [length (heap w)],
           waits := waits w @ [(length (heap w), i)]\<rparr>"
  have wf': "wf_world (w\<lparr>docker := docker w @ [c]\<rparr>)" using assms(1) by (simp add: wf_world_def)
  have s: "serving r ident A (w\<lparr>docker := docker w @ [c]\<rparr>)" using assms(2) by simp
  show ?thesis by (subst a) (use serving_attached[OF wf' s] in simp)
qed (use assms in simp_all)

lemma serving_stopBot: "serving r ident A w \<Longrightarrow> serving r ident A (stopBot so i w)"
  by (auto simp: stopBot_def Let_def serving_def split: option.splits prod.splits)

lemma serving_fs [simp]: "serving r ident A (w\<lparr>fs := f\<rparr>) = serving r ident A w"
  by (simp add: serving_def)

lemma serving_on_data_same:
  "serving r ident A w \<Longrightarrow> serving r ident (A @ [stamp ts chunk]) (on_data r ts chunk w)"
  using slice_last_push[of A "stamp ts chunk"]
  by (auto simp: on_data_def Let_def serving_def)

lemma serving_on_data_other:
  "r' \<noteq> r \<Longrightarrow> serving r ident A w \<Longrightarrow> serving r ident A (on_data r' ts chunk w)"
  by (auto simp: on_data_def Let_def serving_def)

lemma serving_on_exit_same:
  "serving r ident A w \<Longrightarrow>
     serving r ident B (on_exit r ident ts res (w\<lparr>waits := filter (\<lambda>p. fst p \<noteq> r) (waits w)\<rparr>))"
  by (auto simp: on_exit_def Let_def serving_def map_of_filter_same)

lemma serving_on_exit_other:
  "r' \<noteq> r \<Longrightarrow> serving r ident A w \<Longrightarrow>
     serving r ident A (on_exit r' i ts res (w\<lparr>waits := filter (\<lambda>p. fst p \<noteq> r') (waits w)\<rparr>))"
  by (auto simp: on_exit_def Let_def serving_def map_of_filter_other)

lemma serving_ws_connection: "serving r ident A w \<Longrightarrow> serving r ident A (ws_connection b w)"
  by (auto simp: ws_connection_def Let_def serving_def bots_get_Some nth_list_update
      split: option.splits prod.splits)

lemma serving_ws_close: "serving r ident A w \<Longrightarrow> serving r ident A (ws_close j w)"
  by (auto simp: ws_close_def Let_def serving_def nth_list_update split: option.splits)


lemma serving_step:
  assumes "wf_world w" "serving r ident A w"
  shows "serving r ident (A @ line_of r w ev) (step pe w ev)"
proof (cases ev)
  case (Start rp i)
  then show ?thesis using assms by (simp add: serving_startBot)
next
  case (Stop so i)
  then show ?thesis using assms by (simp add: serving_stopBot)
next
  case (Restart so rp i)
  then show ?thesis
    using assms by (simp add: post_restart_def serving_startBot serving_stopBot wf_stopBot)
next
  case (Delete so i)
  then show ?thesis using assms by (simp add: delete_bot_def Let_def serving_stopBot)
next
  case (PutFile i rel body)
  then show ?thesis using assms by simp
next
  case (Filesystem f')
  then show ?thesis using assms by simp
next
  case (Data r' ts chunk)
  then show ?thesis
    using assms serving_on_data_same[of r ident A w ts chunk]
      serving_on_data_other[of r' r ident A w ts chunk]
    by (auto simp: serving_def)
next
  case (Exit r' ts res)
  show ?thesis
  proof (cases "map_of (waits w) r'")
    case None
    then show ?thesis using assms Exit by auto
  next
    case (Some i)
    show ?thesis
    proof (cases "r' = r")
      case True
      then have "i = ident" using Some assms(2) by (auto simp: serving_def)
      then show ?thesis
        using Exit Some True serving_on_exit_same[OF assms(2), of "A @ [exit_line ts res]" ts res]
        by simp
    next
      case False
      then show ?thesis
        using Exit Some serving_on_exit_other[OF False assms(2), of i ts res] by simp
    qed
  qed
next
  case (Connect b)
  then show ?thesis using assms by (simp add: serving_ws_connection)
next
  case (Close j)
  then show ?thesis using assms by (simp add: serving_ws_close)
qed

lemma serving_run:
  "wf_world w \<Longrightarrow> serving r ident A w \<Longrightarrow> serving r ident (A @ appended pe r w evs) (run pe evs w)"
proof (induction evs arbitrary: w A)
  case Nil
  then show ?case by simp
next
  case (Cons ev evs)
  have "serving r ident ((A @ line_of r w ev) @ appended pe r (step pe w ev) evs)
          (run pe evs (step pe w ev))"
    using Cons.prems by (intro Cons.IH wf_step serving_step)
  then show ?case by simp
qed

lemma tuned_fs [simp]: "tuned k r (w\<lparr>fs := f\<rparr>) = tuned k r w"
  by (simp add: tuned_def)

lemma tuned_stopBot [simp]: "tuned k r (stopBot so i w) = tuned k r w"
  by (simp add: tuned_def)

lemma tuned_startBot: "tuned k r w \<Longrightarrow> tuned k r (snd (startBot pe rp i w))"
  using startBot_shape[of pe rp i w]
  by (elim disjE exE) (auto simp: tuned_def nth_append less_Suc_eq)

lemma tuned_on_data:
  assumes "wf_world w" "tuned k r w" "r' < length (heap w)"
  shows "tuned k r (on_data r' ts chunk w)"
    and "inbox k (on_data r' ts chunk w) = inbox k w @ (if r' = r then [Log (stamp ts chunk)] else [])"
proof -
  show "tuned k r (on_data r' ts chunk w)"
    using assms(2) by (auto simp: on_data_def Let_def tuned_def nth_list_update)
  have d: "distinct (listeners (heap w ! r'))" using assms(1,3) by (simp add: wf_world_def)
  have "(k \<in> set (listeners (heap w ! r'))) = (r' = r)" using assms(2,3) by (simp add: tuned_def)
  then show "inbox k (on_data r' ts chunk w) = inbox k w @ (if r' = r then [Log (stamp ts chunk)] else [])"
    using assms(3) by (simp add: on_data_def Let_def inbox_def filter_deliver[OF d])
qed

lemma tuned_on_exit:
  assumes "wf_world w" "tuned k r w" "r' < length (heap w)"
  shows "tuned k r (on_exit r' i ts res w)"
    and "inbox k (on_exit r' i ts res w) = inbox k w @ (if r' = r then [Log (exit_line ts res)] else [])"
proof -
  show "tuned k r (on_exit r' i ts res w)"
    using assms(2) by (auto simp: on_exit_def Let_def tuned_def nth_list_update)
  have d: "distinct (listeners (heap w ! r'))" using assms(1,3) by (simp add: wf_world_def)
  have "(k \<in> set (listeners (heap w ! r'))) = (r' = r)" using assms(2,3) by (simp add: tuned_def)
  then show "inbox k (on_exit r' i ts res w) = inbox k w @ (if r' = r then [Log (exit_line ts res)] else [])"
    using assms(3) by (simp add: on_exit_def Let_def inbox_def filter_deliver[OF d] exit_line_def)
qed

lemma tuned_ws_connection:
  assumes "tuned k r w"
  shows "tuned k r (ws_connection b w)" and "inbox k (ws_connection b w) = inbox k w"
  using assms
  by (auto simp: ws_connection_def Let_def tuned_def nth_list_update inbox_def set_add_def bots_get_Some
      split: option.splits prod.splits)

lemma tuned_ws_close:
  assumes "tuned k r w" "j \<noteq> k"
  shows "tuned k r (ws_close j w)" and "inbox k (ws_close j w) = inbox k w"
  using assms
  by (auto simp: ws_close_def Let_def tuned_def nth_list_update inbox_def set_delete_def
      split: option.splits)

lemma tuned_step:
  assumes "wf_world w" "tuned k r w" "ev \<noteq> Close k"
  shows "tuned k r (step pe w ev) \<and> inbox k (step pe w ev) = inbox k w @ map Log (line_of r w ev)"
proof (cases ev)
  case (Start rp i)
  then show ?thesis using assms by (simp add: tuned_startBot)
next
  case (Stop so i)
  then show ?thesis using assms by simp
next
  case (Restart so rp i)
  then show ?thesis using assms by (simp add: post_restart_def tuned_startBot)
next
  case (Delete so i)
  then show ?thesis using assms by (simp add: delete_bot_def Let_def)
next
  case (PutFile i rel body)
  then show ?thesis using assms by simp
next
  case (Filesystem f')
  then show ?thesis using assms by simp
next
  case (Data r' ts chunk)
  show ?thesis
  proof (cases "r' \<in> set (streams w)")
    case True
    then have "r' < length (heap w)" using assms(1) by (simp add: wf_world_def)
    from tuned_on_data[OF assms(1,2) this, of ts chunk] show ?thesis
      using Data True by auto
  next
    case False
    then show ?thesis using Data assms by auto
  qed
next
  case (Exit r' ts res)
  show ?thesis
  proof (cases "map_of (waits w) r'")
    case None
    then show ?thesis using assms Exit by auto
  next
    case (Some i)
    let ?w = "w\<lparr>waits := filter (\<lambda>p. fst p \<noteq> r') (waits w)\<rparr>"
    have "(r', i) \<in> set (waits w)" using Some by (rule map_of_SomeD)
    then have lt: "r' < length (heap ?w)" using assms(1) by (auto simp: wf_world_def)
    have wf: "wf_world ?w" using assms(1) by (rule wf_waits_filter)
    have tu: "tuned k r ?w" using assms(2) by (simp add: tuned_def)
    from tuned_on_exit[OF wf tu lt, of i ts res] show ?thesis
      using Exit Some by (auto simp: inbox_def)
  qed
next
  case (Connect b)
  then show ?thesis using assms tuned_ws_connection[of k r w b] by simp
next
  case (Close j)
  then show ?thesis using assms tuned_ws_close[of k r w j] by simp
qed

lemma tuned_run:
  assumes "wf_world w" "tuned k r w" "Close k \<notin> set evs"
  shows "inbox k (run pe evs w) = inbox k w @ map Log (appended pe r w evs)"
  using assms
proof (induction evs arbitrary: w)
  case Nil
  then show ?case by simp
next
  case (Cons ev evs)
  have ne: "ev \<noteq> Close k" using Cons.prems(3) by auto
  note st = tuned_step[OF Cons.prems(1,2) ne, of pe]
  have "inbox k (run pe evs (step pe w ev))
      = inbox k (step pe w ev) @ map Log (appended pe r (step pe w ev) evs)"
    using Cons.prems st by (intro Cons.IH wf_step) auto
  then show ?case using st by simp
qed

lemma serving_fresh:
  assumes "wf_world w0" "startBot pe rp ident w0 = (Inr (Started c), w1)"
  shows "serving (length (heap w0)) ident [] w1"
proof -
  have nw: "map_of (waits w0) (length (heap w0)) = None"
    using assms(1) by (force simp: wf_world_def map_of_eq_None_iff)
  have nb: "bots w0 i \<noteq> Some (length (heap w0))" for i
    using assms(1) by (auto simp: wf_world_def)
  show ?thesis
    by (subst startBot_Started(1)[OF assms(2)])
       (simp add: serving_def nw nb slice_last_def map_add_def)
qed

text \<open>
  C5. Start a bundle in any world the server can reach and let anything happen (\<open>evs1\<close>);
  let \<open>N\<close> be the number of lines this appended to the buffer of the instance. If the
  instance is still the registered one when a subscriber connects, the subscriber is first
  sent one \<open>history\<close> message with the last \<open>min N 200\<close> of those lines, in order, and
  then, for as long as its connection is not closed, one \<open>log\<close> message for each line
  appended to that buffer afterwards, in order, each line once and none left out.
\<close>

theorem subscriber_replay_then_live:
  assumes "w0 = run pe evs0 (init f)"
    and "startBot pe rp ident w0 = (Inr (Started c), w1)"
    and "w2 = run pe evs1 w1"
    and "bots w2 ident = Some (length (heap w0))"
    and "ident \<noteq> []"
    and "Close (length (conns w2)) \<notin> set evs2"
  shows "inbox (length (conns w2)) (run pe evs2 (ws_connection (Some ident) w2))
           = History (slice_last 200 (appended pe (length (heap w0)) w1 evs1))
             # map Log (appended pe (length (heap w0)) (ws_connection (Some ident) w2) evs2)
         \<and> length (slice_last 200 (appended pe (length (heap w0)) w1 evs1))
           = min (length (appended pe (length (heap w0)) w1 evs1)) 200"
proof -
  let ?r = "length (heap w0)"
  let ?k = "length (conns w2)"
  let ?A = "appended pe ?r w1 evs1"
  let ?w3 = "ws_connection (Some ident) w2"
  have wf0: "wf_world w0" unfolding assms(1) by (rule wf_reachable)
  have wf1: "wf_world w1" using wf_startBot[OF wf0, of pe rp ident] assms(2) by simp
  have wf2: "wf_world w2" unfolding assms(3) using wf1 by (rule wf_run)
  have "serving ?r ident ([] @ ?A) w2"
    unfolding assms(3) using wf1 serving_fresh[OF wf0 assms(2)] by (rule serving_run)
  then have sv: "serving ?r ident ?A w2" by simp
  then have lt: "?r < length (heap w2)" by (simp add: serving_def)
  have lg: "logs (heap w2 ! ?r) = slice_last 2000 ?A"
  proof -
    from sv have 1: "\<forall>i. bots w2 i = Some ?r \<longrightarrow> i = ident \<and> map_of (waits w2) ?r = Some ident"
      and 2: "map_of (waits w2) ?r = Some ident \<longrightarrow> logs (heap w2 ! ?r) = slice_last 2000 ?A"
      unfolding serving_def by blast+
    from 1 assms(4) have "map_of (waits w2) ?r = Some ident" by blast
    with 2 show ?thesis by blast
  qed
  have bg: "bots_get w2 ident = Some (?r, heap w2 ! ?r)"
    using assms(4) lt by (simp add: bots_get_def)
  have w3: "?w3 = w2\<lparr>conns := conns w2 @ [Some ?r],
                  sent := sent w2 @ [(?k, History (slice_last 200 (logs (heap w2 ! ?r))))],
                  heap := (heap w2)[?r := (heap w2 ! ?r)\<lparr>listeners := set_add ?k (listeners (heap w2 ! ?r))\<rparr>]\<rparr>"
    using assms(5) bg by (simp add: ws_connection_def Let_def)
  have fresh: "?k \<notin> set (listeners (heap w2 ! i))" if "i < length (heap w2)" for i
    using wf2 that by (auto simp: wf_world_def)
  have tu: "tuned ?k ?r ?w3"
    using lt fresh by (subst w3) (auto simp: tuned_def nth_list_update set_add_def)
  have "inbox ?k w2 = []"
    using wf2 by (auto simp: inbox_def wf_world_def filter_empty_conv)
  then have ib: "inbox ?k ?w3 = [History (slice_last 200 ?A)]"
    by (subst w3) (simp add: inbox_def lg slice_last_slice_last)
  have wf3: "wf_world ?w3" using wf2 by (rule wf_ws_connection)
  have "inbox ?k (run pe evs2 ?w3) = inbox ?k ?w3 @ map Log (appended pe ?r ?w3 evs2)"
    using wf3 tu assms(6) by (rule tuned_run)
  then show ?thesis by (simp add: ib length_slice_last)
qed

theorem subscriber_replay_then_live_witness:
  "startBot pe_example rp_ok ''abc'' (run pe_example [] (init fs_example)) = (Inr (Started ''c1''), w_started)
   \<and> bots (run pe_example [Data 0 ''t1'' ''one'', Data 0 ''t2'' ''two''] w_started) ''abc''
        = Some (length (heap (run pe_example [] (init fs_example))))
   \<and> Close (length (conns (run pe_example [Data 0 ''t1'' ''one'', Data 0 ''t2'' ''two''] w_started)))
        \<notin> set [Data 0 ''t3'' ''three'', Exit 0 ''t4'' ''{}'']
   \<and> inbox 0 (run pe_example [Data 0 ''t3'' ''three'', Exit 0 ''t4'' ''{}'']
          (ws_connection (Some ''abc'')
             (run pe_example [Data 0 ''t1'' ''one'', Data 0 ''t2'' ''two''] w_started)))
        = [History [''[t1] one'', ''[t2] two''], Log ''[t3] three'', Log ''[t4] container exited {}'']"
proof -
  let ?evs1 = "[Data 0 ''t1'' ''one'', Data 0 ''t2'' ''two'']"
  let ?evs2 = "[Data 0 ''t3'' ''three'', Exit 0 ''t4'' ''{}'']"
  let ?w2 = "run pe_example ?evs1 w_started"
  have h1: "init fs_example = run pe_example [] (init fs_example)" by simp
  have h2: "startBot pe_example rp_ok ''abc'' (init fs_example) = (Inr (Started ''c1''), w_started)"
    by (rule start_abc)
  have h3: "?w2 = run pe_example ?evs1 w_started" by simp
  have h4: "bots ?w2 ''abc'' = Some (length (heap (init fs_example)))"
    by (simp add: w_started_eq init_def)
  have h5: "''abc'' \<noteq> []" by simp
  have h6: "Close (length (conns ?w2)) \<notin> set ?evs2" by simp
  have k: "length (conns ?w2) = 0" "length (heap (init fs_example)) = 0"
    by (simp_all add: w_started_eq init_def on_data_def Let_def)
  have a1: "appended pe_example 0 w_started ?evs1 = [''[t1] one'', ''[t2] two'']"
    by code_simp
  have a2: "appended pe_example 0 (ws_connection (Some ''abc'') ?w2) ?evs2
      = [''[t3] three'', ''[t4] container exited {}'']"
    by code_simp
  have "inbox 0 (run pe_example ?evs2 (ws_connection (Some ''abc'') ?w2))
        = [History [''[t1] one'', ''[t2] two''], Log ''[t3] three'', Log ''[t4] container exited {}'']"
    using subscriber_replay_then_live[OF h1 h2 h3 h4 h5 h6]
    by (simp only: k a1 a2) (simp add: slice_last_def)
  then show ?thesis using h2 h4 h6 by simp
qed

section \<open>Unsolicited exit\<close>

lemma status_on_exit: "status (on_exit r ident ts res w) ident = (False, None)"
  by (simp add: on_exit_def Let_def status_def bots_get_def)

lemma fs_on_exit [simp]: "fs (on_exit r ident ts res w) = fs w"
  by (simp add: on_exit_def Let_def)

text \<open>
  The exit observer run on the instance that is registered for \<open>ident\<close> (at \<open>r\<close>, with a
  container): it appends the \<open>container exited\<close> line with the exit result to the buffer,
  sends it to every listener of the entry, and removes the registry entry, so that the
  bundle is Stopped. A Stop that comes right after it changes nothing; run right after a
  Stop, the observer still appends and delivers its line and leaves the registry as the
  Stop left it.
\<close>

lemma exit_observer:
  assumes "bots_get w ident = Some (r, e)" "container e = Some c"
  shows "on_exit r ident ts res w
           = w\<lparr>heap := (heap w)[r := e\<lparr>logs := logs e @ [exit_line ts res]\<rparr>],
               sent := sent w @ deliver (listeners e) (exit_line ts res),
               bots := (bots w)(ident := None)\<rparr>
     \<and> status (on_exit r ident ts res w) ident = (False, None)
     \<and> stopBot so ident (on_exit r ident ts res w) = on_exit r ident ts res w
     \<and> bots (on_exit r ident ts res (stopBot so ident w)) = bots (stopBot so ident w)
     \<and> status (on_exit r ident ts res (stopBot so ident w)) ident = (False, None)
     \<and> (pathExists (fs w) (path_join [DATA_DIR (cwd pe), ident])
          \<and> discover rp (fs w) (path_join [DATA_DIR (cwd pe), ident]) = Inr (Some ep)
          \<and> create_result rp = Inr n \<and> start_result rp = None \<and> logs_result rp = None \<longrightarrow>
         fst (startBot pe rp ident (on_exit r ident ts res w)) = Inr (Started n))"
proof (intro conjI impI)
  have r: "r < length (heap w)" "e = heap w ! r" "bots w ident = Some r"
    using assms(1) by (simp_all add: bots_get_Some)
  show "on_exit r ident ts res w
           = w\<lparr>heap := (heap w)[r := e\<lparr>logs := logs e @ [exit_line ts res]\<rparr>],
               sent := sent w @ deliver (listeners e) (exit_line ts res),
               bots := (bots w)(ident := None)\<rparr>"
    using r by (simp add: on_exit_def Let_def exit_line_def)
  show "status (on_exit r ident ts res w) ident = (False, None)" by (rule status_on_exit)
  show "stopBot so ident (on_exit r ident ts res w) = on_exit r ident ts res w"
    using status_on_exit[of r ident ts res w] by (rule stopBot_noop)
  have "bots (stopBot so ident w) = (bots w)(ident := None)"
    using assms by (cases so) (simp_all add: stopBot_def)
  then show "bots (on_exit r ident ts res (stopBot so ident w)) = bots (stopBot so ident w)"
    using r(1) by (simp add: on_exit_def Let_def)
  show "status (on_exit r ident ts res (stopBot so ident w)) ident = (False, None)"
    by (rule status_on_exit)
  show "fst (startBot pe rp ident (on_exit r ident ts res w)) = Inr (Started n)"
    if h: "pathExists (fs w) (path_join [DATA_DIR (cwd pe), ident])
          \<and> discover rp (fs w) (path_join [DATA_DIR (cwd pe), ident]) = Inr (Some ep)
          \<and> create_result rp = Inr n \<and> start_result rp = None \<and> logs_result rp = None"
  proof -
    have "startBot pe rp ident (on_exit r ident ts res w) =
        create_and_run pe rp ident (path_join [DATA_DIR (cwd pe), ident]) ep (on_exit r ident ts res w)"
      using h startBot_stopped[of "on_exit r ident ts res w" pe ident rp] status_on_exit[of r ident ts res w]
      by simp
    then show ?thesis using h by (simp add: create_and_run_accepted)
  qed
qed

lemma w_subscribed_eq:
  "w_subscribed = w_started\<lparr>conns := [Some 0], sent := [(0, History [])], heap := [e_subscribed]\<rparr>"
  by (simp add: w_subscribed_def ws_connection_def Let_def bots_get_started e_subscribed_def
      slice_last_def set_add_def) (simp add: w_started_eq init_def)

lemma bots_get_subscribed: "bots_get w_subscribed ''abc'' = Some (0, e_subscribed)"
  by (simp add: w_subscribed_eq bots_get_def) (simp add: w_started_eq init_def)

lemma exit_observer_example:
  "bots_get w_subscribed ''abc'' = Some (0, e_subscribed)
   \<and> container e_subscribed = Some c_started
   \<and> logs (heap (on_exit 0 ''abc'' ''t9'' ''{}'' w_subscribed) ! 0) = [''[t9] container exited {}'']
   \<and> inbox 0 (on_exit 0 ''abc'' ''t9'' ''{}'' w_subscribed)
        = [History [], Log ''[t9] container exited {}'']
   \<and> status (on_exit 0 ''abc'' ''t9'' ''{}'' w_subscribed) ''abc'' = (False, None)
   \<and> stopBot None ''abc'' (on_exit 0 ''abc'' ''t9'' ''{}'' w_subscribed)
        = on_exit 0 ''abc'' ''t9'' ''{}'' w_subscribed
   \<and> bots (on_exit 0 ''abc'' ''t9'' ''{}'' (stopBot None ''abc'' w_subscribed))
        = bots (stopBot None ''abc'' w_subscribed)
   \<and> pathExists (fs w_subscribed) (path_join [DATA_DIR (cwd pe_example), ''abc''])
   \<and> fst (startBot pe_example rp_ok ''abc'' (on_exit 0 ''abc'' ''t9'' ''{}'' w_subscribed))
        = Inr (Started ''c1'')"
proof -
  have c: "container e_subscribed = Some c_started" by (simp add: e_subscribed_def)
  have f: "fs w_subscribed = fs_example" by (simp add: w_subscribed_eq fs_started)
  have ex: "pathExists (fs w_subscribed) (path_join [DATA_DIR (cwd pe_example), ''abc''])"
    by (simp add: f dir_abc exists_abc)
  have di: "discover rp_ok (fs w_subscribed) (path_join [DATA_DIR (cwd pe_example), ''abc''])
              = Inr (Some ''/bot/index.js'')"
    by (simp add: f dir_abc discover_abc)
  have rp: "create_result rp_ok = Inr ''c1''" "start_result rp_ok = None" "logs_result rp_ok = None"
    by (simp_all add: rp_ok_def)
  note t = exit_observer[OF bots_get_subscribed c, of "''t9''" "''{}''" None pe_example rp_ok
      "''/bot/index.js''" "''c1''"]
  have eq: "on_exit 0 ''abc'' ''t9'' ''{}'' w_subscribed
           = w_subscribed\<lparr>heap := (heap w_subscribed)[0 := e_subscribed\<lparr>logs := logs e_subscribed @ [exit_line ''t9'' ''{}'']\<rparr>],
               sent := sent w_subscribed @ deliver (listeners e_subscribed) (exit_line ''t9'' ''{}''),
               bots := (bots w_subscribed)(''abc'' := None)\<rparr>"
    using t by blast
  have l: "exit_line ''t9'' ''{}'' = ''[t9] container exited {}''"
    by (simp add: exit_line_def stamp_def)
  have 1: "logs (heap (on_exit 0 ''abc'' ''t9'' ''{}'' w_subscribed) ! 0) = [''[t9] container exited {}'']"
    by (subst eq) (simp add: w_subscribed_eq e_subscribed_def l)
  have 2: "inbox 0 (on_exit 0 ''abc'' ''t9'' ''{}'' w_subscribed)
        = [History [], Log ''[t9] container exited {}'']"
    by (subst eq) (simp add: w_subscribed_eq e_subscribed_def l inbox_def deliver_def)
  have 3: "status (on_exit 0 ''abc'' ''t9'' ''{}'' w_subscribed) ''abc'' = (False, None)"
    using t by blast
  have 4: "stopBot None ''abc'' (on_exit 0 ''abc'' ''t9'' ''{}'' w_subscribed)
        = on_exit 0 ''abc'' ''t9'' ''{}'' w_subscribed"
    using t by blast
  have 5: "bots (on_exit 0 ''abc'' ''t9'' ''{}'' (stopBot None ''abc'' w_subscribed))
        = bots (stopBot None ''abc'' w_subscribed)"
    using t by blast
  have 6: "fst (startBot pe_example rp_ok ''abc'' (on_exit 0 ''abc'' ''t9'' ''{}'' w_subscribed))
        = Inr (Started ''c1'')"
    using t ex di rp by blast
  show ?thesis using bots_get_subscribed c 1 2 3 4 5 6 ex by blast
qed

text \<open>
  C7 fails where it says that the observer does nothing once a Stop has performed the
  transition. The observer removes the registry entry by bundle id (line 247) and does not
  look whether the entry registered under that id is still its own, as \<open>stopBot\<close> looks at
  line 255. Start \<open>abc\<close>, stop it, start it again (container \<open>c3\<close>): the bundle is running
  and the observer of the first instance is still pending. When that observer runs, the
  entry it removes is the one of the new instance: the bundle is reported as not running
  while \<open>c3\<close>, which nothing has stopped, is still with the daemon.
\<close>

theorem late_observer_unregisters_new_instance:
  "status (run pe_example [Start rp_ok ''abc'', Stop None ''abc'', Start rp_main ''abc'']
             (init fs_example)) ''abc'' = (True, Some ''c3'')
   \<and> map_of (waits (run pe_example [Start rp_ok ''abc'', Stop None ''abc'', Start rp_main ''abc'']
                       (init fs_example))) 0 = Some ''abc''
   \<and> status (run pe_example [Start rp_ok ''abc'', Stop None ''abc'', Start rp_main ''abc'',
                            Exit 0 ''t'' ''{}'']
             (init fs_example)) ''abc'' = (False, None)
   \<and> map cid (docker (run pe_example [Start rp_ok ''abc'', Stop None ''abc'', Start rp_main ''abc'',
                                     Exit 0 ''t'' ''{}'']
             (init fs_example))) = [''c1'', ''c3'']"
  by code_simp

text \<open>An instance is registered at line 229, its observer only at line 243: when
  \<open>container.logs\<close> is rejected in between, Start throws, the bundle is reported as running,
  and no observer is pending, so that the exit of that sandbox appends nothing and clears
  nothing.\<close>

lemma no_observer_when_logs_rejected:
  "fst (startBot pe_example rp_logs_fails ''abc'' (init fs_example)) = Inl (Rejected ''logs failed'')
   \<and> status (run pe_example [Start rp_logs_fails ''abc''] (init fs_example)) ''abc''
        = (True, Some ''c4'')
   \<and> waits (run pe_example [Start rp_logs_fails ''abc''] (init fs_example)) = []
   \<and> status (run pe_example [Start rp_logs_fails ''abc'', Exit 0 ''t'' ''{}''] (init fs_example)) ''abc''
        = (True, Some ''c4'')
   \<and> logs (heap (run pe_example [Start rp_logs_fails ''abc'', Exit 0 ''t'' ''{}'']
                    (init fs_example)) ! 0) = []"
  by code_simp

section \<open>Starts that overlap\<close>

lemma start_steps_Returned [simp]: "start_steps n pe rp ident (Returned res) w = (Returned res, w)"
  by (induction n) simp_all

lemma start_steps_create:
  "start_steps (Suc (Suc (Suc 0))) pe rp ident (AwaitCreate ep) w
     = (Returned (fst (create_and_run pe rp ident (path_join [DATA_DIR (cwd pe), ident]) ep w)),
        snd (create_and_run pe rp ident (path_join [DATA_DIR (cwd pe), ident]) ep w))"
  by (simp add: create_and_run_def Let_def new_container_def split: sum.splits option.splits)

text \<open>A call that is never interrupted is \<open>startBot\<close>.\<close>

lemma start_steps_startBot:
  "start_steps 5 pe rp ident AwaitDir w
     = (Returned (fst (startBot pe rp ident w)), snd (startBot pe rp ident w))"
proof -
  have "start_steps (Suc (Suc (Suc (Suc (Suc 0))))) pe rp ident AwaitDir w
     = (Returned (fst (startBot pe rp ident w)), snd (startBot pe rp ident w))"
    using start_steps_create[of pe rp ident _ w]
    by (simp add: startBot_def Let_def split: sum.splits option.splits prod.splits)
  then show ?thesis by (simp add: eval_nat_numeral)
qed


lemma interleave_A_only:
  "interleave pe (rpA, i) B (replicate n True) (tA, tB, w)
     = (fst (start_steps n pe rpA i tA w), tB, snd (start_steps n pe rpA i tA w))"
  by (induction n arbitrary: tA w) (simp_all split: prod.splits)

lemma interleave_B_only:
  "interleave pe A (rpB, i) (replicate n False) (tA, tB, w)
     = (tA, fst (start_steps n pe rpB i tB w), snd (start_steps n pe rpB i tB w))"
  by (induction n arbitrary: tB w) (simp_all split: prod.splits)

lemma interleave_append:
  "interleave pe A B (xs @ ys) s = interleave pe A B ys (interleave pe A B xs s)"
proof (induction xs arbitrary: s)
  case Nil
  then show ?case by simp
next
  case (Cons x xs)
  obtain tA tB w where s: "s = (tA, tB, w)" by (cases s)
  show ?case using Cons by (simp add: s split: prod.splits)
qed

lemma interleave_sequential:
  "interleave pe (rpA, i) (rpB, i) (replicate 5 True @ replicate 5 False) (AwaitDir, AwaitDir, w)
     = (Returned (fst (startBot pe rpA i w)),
        Returned (fst (startBot pe rpB i (snd (startBot pe rpA i w)))),
        snd (startBot pe rpB i (snd (startBot pe rpA i w))))"
  by (simp only: interleave_append interleave_A_only interleave_B_only start_steps_startBot fst_conv snd_conv)

lemma interleave_checks:
  assumes "pathExists (fs w) (path_join [DATA_DIR (cwd pe), ident])"
    and "status w ident = (False, None)"
    and "discover rpA (fs w) (path_join [DATA_DIR (cwd pe), ident]) = Inr (Some epA)"
    and "discover rpB (fs w) (path_join [DATA_DIR (cwd pe), ident]) = Inr (Some epB)"
  shows "interleave pe (rpA, ident) (rpB, ident) [True, False, True, False] (AwaitDir, AwaitDir, w)
           = (AwaitCreate epA, AwaitCreate epB, w)"
  using assms by (simp add: status_stopped_iff)

lemma interleave_both_create:
  assumes "create_result rpA = Inr a" "start_result rpA = None" "logs_result rpA = None"
    and "create_result rpB = Inr b" "start_result rpB = None" "logs_result rpB = None"
  shows "interleave pe (rpA, ident) (rpB, ident) [True, False, True, False, True, False]
           (AwaitCreate epA, AwaitCreate epB, w)
         = (Returned (Inr (Started a)), Returned (Inr (Started b)),
            w\<lparr>docker := docker w @ [new_container pe ident (path_join [DATA_DIR (cwd pe), ident]) epA a,
                                     new_container pe ident (path_join [DATA_DIR (cwd pe), ident]) epB b],
              heap := heap w @ [\<lparr>container = Some (new_container pe ident (path_join [DATA_DIR (cwd pe), ident]) epA a),
                                 logs = [], listeners = []\<rparr>,
                               \<lparr>container = Some (new_container pe ident (path_join [DATA_DIR (cwd pe), ident]) epB b),
                                 logs = [], listeners = []\<rparr>],
              bots := (bots w)(ident \<mapsto> Suc (length (heap w))),
              streams := streams w @ [length (heap w), Suc (length (heap w))],
              waits := waits w @ [(length (heap w), ident), (Suc (length (heap w)), ident)]\<rparr>)"
  using assms by (simp add: Let_def new_container_def)


text \<open>
  C9 (as amended). The server has no exclusion mechanism per bundle: a Start runs without
  interruption only from one \<open>await\<close> to the next. For a Stopped bundle whose directory and
  entry point exist,
  \<^item> two Starts that both begin before either has registered its entry both pass the
    \<open>already running\<close> check and both ask the daemon for a container;
  \<^item> when the daemon accepts both, two containers exist, both calls return their own
    container id, and the registry keeps the one registered last;
  \<^item> two Starts that do not overlap are two calls of \<open>startBot\<close> one after the other, and
    when the first has created the container \<open>a\<close> the second returns \<open>already running\<close>
    with \<open>a\<close> and creates nothing.
\<close>

theorem starts_are_not_serialized:
  assumes "pathExists (fs w) (path_join [DATA_DIR (cwd pe), ident])"
    and "status w ident = (False, None)"
    and "discover rpA (fs w) (path_join [DATA_DIR (cwd pe), ident]) = Inr (Some epA)"
    and "discover rpB (fs w) (path_join [DATA_DIR (cwd pe), ident]) = Inr (Some epB)"
  shows "interleave pe (rpA, ident) (rpB, ident) [True, False, True, False] (AwaitDir, AwaitDir, w)
           = (AwaitCreate epA, AwaitCreate epB, w)
     \<and> (create_result rpA = Inr a \<and> start_result rpA = None \<and> logs_result rpA = None
        \<and> create_result rpB = Inr b \<and> start_result rpB = None \<and> logs_result rpB = None \<longrightarrow>
          fst (interleave pe (rpA, ident) (rpB, ident)
                 [True, False, True, False, True, False, True, False, True, False]
                 (AwaitDir, AwaitDir, w)) = Returned (Inr (Started a))
        \<and> fst (snd (interleave pe (rpA, ident) (rpB, ident)
                 [True, False, True, False, True, False, True, False, True, False]
                 (AwaitDir, AwaitDir, w))) = Returned (Inr (Started b))
        \<and> map cid (docker (snd (snd (interleave pe (rpA, ident) (rpB, ident)
                 [True, False, True, False, True, False, True, False, True, False]
                 (AwaitDir, AwaitDir, w))))) = map cid (docker w) @ [a, b]
        \<and> status (snd (snd (interleave pe (rpA, ident) (rpB, ident)
                 [True, False, True, False, True, False, True, False, True, False]
                 (AwaitDir, AwaitDir, w)))) ident = (True, if b = [] then None else Some b))
     \<and> interleave pe (rpA, ident) (rpB, ident) (replicate 5 True @ replicate 5 False) (AwaitDir, AwaitDir, w)
           = (Returned (fst (startBot pe rpA ident w)),
              Returned (fst (startBot pe rpB ident (snd (startBot pe rpA ident w)))),
              snd (startBot pe rpB ident (snd (startBot pe rpA ident w))))
     \<and> (fst (startBot pe rpA ident w) = Inr (Started a) \<longrightarrow>
          startBot pe rpB ident (snd (startBot pe rpA ident w))
            = (Inr (AlreadyRunning a), snd (startBot pe rpA ident w))
        \<and> map cid (docker (snd (startBot pe rpA ident w))) = map cid (docker w) @ [a])"
proof (intro conjI impI)
  let ?sched = "[True, False, True, False, True, False, True, False, True, False]"
  let ?dir = "path_join [DATA_DIR (cwd pe), ident]"
  show ch: "interleave pe (rpA, ident) (rpB, ident) [True, False, True, False] (AwaitDir, AwaitDir, w)
           = (AwaitCreate epA, AwaitCreate epB, w)"
    using assms by (rule interleave_checks)
  have split: "?sched = [True, False, True, False] @ [True, False, True, False, True, False]" by simp
  {
    assume h: "create_result rpA = Inr a \<and> start_result rpA = None \<and> logs_result rpA = None
        \<and> create_result rpB = Inr b \<and> start_result rpB = None \<and> logs_result rpB = None"
    have r: "interleave pe (rpA, ident) (rpB, ident) ?sched (AwaitDir, AwaitDir, w)
         = (Returned (Inr (Started a)), Returned (Inr (Started b)),
            w\<lparr>docker := docker w @ [new_container pe ident ?dir epA a, new_container pe ident ?dir epB b],
              heap := heap w @ [\<lparr>container = Some (new_container pe ident ?dir epA a), logs = [], listeners = []\<rparr>,
                               \<lparr>container = Some (new_container pe ident ?dir epB b), logs = [], listeners = []\<rparr>],
              bots := (bots w)(ident \<mapsto> Suc (length (heap w))),
              streams := streams w @ [length (heap w), Suc (length (heap w))],
              waits := waits w @ [(length (heap w), ident), (Suc (length (heap w)), ident)]\<rparr>)"
      unfolding split interleave_append ch using h by (intro interleave_both_create) simp_all
    show "fst (interleave pe (rpA, ident) (rpB, ident) ?sched (AwaitDir, AwaitDir, w))
            = Returned (Inr (Started a))"
      by (simp only: r fst_conv)
    show "fst (snd (interleave pe (rpA, ident) (rpB, ident) ?sched (AwaitDir, AwaitDir, w)))
            = Returned (Inr (Started b))"
      by (simp only: r fst_conv snd_conv)
    show "map cid (docker (snd (snd (interleave pe (rpA, ident) (rpB, ident) ?sched (AwaitDir, AwaitDir, w)))))
            = map cid (docker w) @ [a, b]"
      by (simp only: r snd_conv) (simp add: new_container_def)
    show "status (snd (snd (interleave pe (rpA, ident) (rpB, ident) ?sched (AwaitDir, AwaitDir, w)))) ident
            = (True, if b = [] then None else Some b)"
      by (simp only: r snd_conv) (simp add: status_def bots_get_def nth_append new_container_def)
  }
  show "interleave pe (rpA, ident) (rpB, ident) (replicate 5 True @ replicate 5 False) (AwaitDir, AwaitDir, w)
           = (Returned (fst (startBot pe rpA ident w)),
              Returned (fst (startBot pe rpB ident (snd (startBot pe rpA ident w)))),
              snd (startBot pe rpB ident (snd (startBot pe rpA ident w))))"
    by (rule interleave_sequential)
  {
    assume "fst (startBot pe rpA ident w) = Inr (Started a)"
    then have a: "startBot pe rpA ident w = (Inr (Started a), snd (startBot pe rpA ident w))"
      by (simp add: prod_eq_iff)
    note s = startBot_Started[OF a]
    let ?w1 = "snd (startBot pe rpA ident w)"
    let ?k = "new_container pe ident ?dir
       (case discover rpA (fs w) ?dir of Inr (Some ep) \<Rightarrow> ep | _ \<Rightarrow> []) a"
    have "bots_get ?w1 ident = Some (length (heap w), \<lparr>container = Some ?k, logs = [], listeners = []\<rparr>)"
      by (subst s(1)) (simp add: bots_get_def)
    moreover have "pathExists (fs ?w1) ?dir" using s(2) by simp
    moreover have "cid ?k = a" by (simp add: new_container_def)
    ultimately show "startBot pe rpB ident ?w1 = (Inr (AlreadyRunning a), ?w1)"
      using startBot_running[of ?w1 pe ident "length (heap w)" _ ?k rpB] by simp
    show "map cid (docker ?w1) = map cid (docker w) @ [a]"
      by (subst s(1)) (simp add: new_container_def)
  }
qed

text \<open>
  C9 as stated fails: two Starts of \<open>abc\<close> that begin together both pass the check of
  line 186 and both have a \<open>createContainer\<close> in flight; with a daemon that accepts both,
  two containers, \<open>c1\<close> and \<open>c3\<close>, exist at the end.
\<close>

theorem two_starts_race:
  "fst (interleave pe_example (rp_ok, ''abc'') (rp_main, ''abc'') [True, False, True, False]
          (AwaitDir, AwaitDir, init fs_example)) = AwaitCreate ''/bot/index.js''
   \<and> fst (snd (interleave pe_example (rp_ok, ''abc'') (rp_main, ''abc'') [True, False, True, False]
          (AwaitDir, AwaitDir, init fs_example))) = AwaitCreate ''/bot/index.js''
   \<and> map cid (docker (snd (snd (interleave pe_example (rp_ok, ''abc'') (rp_main, ''abc'')
          [True, False, True, False, True, False, True, False, True, False]
          (AwaitDir, AwaitDir, init fs_example))))) = [''c1'', ''c3'']"
  by code_simp

theorem starts_are_not_serialized_witness:
  "pathExists (fs (init fs_example)) (path_join [DATA_DIR (cwd pe_example), ''abc''])
   \<and> status (init fs_example) ''abc'' = (False, None)
   \<and> interleave pe_example (rp_ok, ''abc'') (rp_main, ''abc'') [True, False, True, False]
          (AwaitDir, AwaitDir, init fs_example)
        = (AwaitCreate ''/bot/index.js'', AwaitCreate ''/bot/index.js'', init fs_example)
   \<and> status (snd (snd (interleave pe_example (rp_ok, ''abc'') (rp_main, ''abc'')
          [True, False, True, False, True, False, True, False, True, False]
          (AwaitDir, AwaitDir, init fs_example)))) ''abc'' = (True, Some ''c3'')
   \<and> fst (startBot pe_example rp_ok ''abc'' (init fs_example)) = Inr (Started ''c1'')
   \<and> startBot pe_example rp_main ''abc'' (snd (startBot pe_example rp_ok ''abc'' (init fs_example)))
        = (Inr (AlreadyRunning ''c1''), snd (startBot pe_example rp_ok ''abc'' (init fs_example)))"
proof -
  have st: "status (init fs_example) ''abc'' = (False, None)"
    by (simp add: status_def bots_get_def init_def)
  have ex: "pathExists (fs (init fs_example)) (path_join [DATA_DIR (cwd pe_example), ''abc''])"
    by (simp add: init_def dir_abc exists_abc)
  have di: "discover rp (fs (init fs_example)) (path_join [DATA_DIR (cwd pe_example), ''abc''])
              = Inr (Some ''/bot/index.js'')" for rp
    by (simp add: init_def dir_abc discover_abc)
  have rp: "create_result rp_ok = Inr ''c1''" "start_result rp_ok = None" "logs_result rp_ok = None"
    "create_result rp_main = Inr ''c3''" "start_result rp_main = None" "logs_result rp_main = None"
    by (simp_all add: rp_ok_def rp_main_def)
  have f: "fst (startBot pe_example rp_ok ''abc'' (init fs_example)) = Inr (Started ''c1'')"
    by (simp add: start_abc)
  note t = starts_are_not_serialized[OF ex st di di, of rp_ok rp_main "''c1''" "''c3''"]
  have 1: "interleave pe_example (rp_ok, ''abc'') (rp_main, ''abc'') [True, False, True, False]
          (AwaitDir, AwaitDir, init fs_example)
        = (AwaitCreate ''/bot/index.js'', AwaitCreate ''/bot/index.js'', init fs_example)"
    using t by blast
  have 2: "status (snd (snd (interleave pe_example (rp_ok, ''abc'') (rp_main, ''abc'')
          [True, False, True, False, True, False, True, False, True, False]
          (AwaitDir, AwaitDir, init fs_example)))) ''abc'' = (True, if ''c3'' = [] then None else Some ''c3'')"
    using t rp by blast
  have 3: "startBot pe_example rp_main ''abc'' (snd (startBot pe_example rp_ok ''abc'' (init fs_example)))
        = (Inr (AlreadyRunning ''c1''), snd (startBot pe_example rp_ok ''abc'' (init fs_example)))"
    using t f by blast
  show ?thesis using st ex 1 2 3 f by simp
qed

end
